theory Spec2Isabelle
  imports Complex_Main "HOL-Library.Log_Nat" "HOL-Library.Signed_Division"
begin

section \<open>Snake on a grid: a model of main.cpp\<close>

text \<open>
  The program is one C++ file: a \<open>GameConfig\<close> struct, a \<open>Snake\<close> class, a \<open>RNG\<close>
  struct and \<open>main\<close>, whose local variables are the game session and whose loop body
  polls the window's events, updates the simulation at a fixed interval and renders.
  The model keeps the names of the source. The local variables of \<open>main\<close> are the record
  \<open>Game\<close>; each block of \<open>main\<close> is a function on that record. Rendering reads the
  state and is left out.

  A result of type \<open>option\<close> is \<open>None\<close> where the C++ program has no result: a loop that
  never ends (\<open>placeFood\<close> samples until it finds a free cell) or \<open>front()\<close> of an empty
  deque, which is undefined behaviour.
\<close>

subsection \<open>Single-precision arithmetic\<close>

text \<open>
  \<open>moveInterval\<close>, \<open>acc\<close> and \<open>dt\<close> are C++ \<open>float\<close>s. A float is modelled by the real
  number it denotes; \<open>f32\<close> rounds a real to the nearest binary32 value, ties to even
  (24 significant bits, subnormals below \<open>2^-126\<close>), which is what each literal with
  suffix \<open>f\<close> and each \<open>float\<close> operation of the source yields. Overflow to infinity
  is not modelled: the values of the program are seconds, far below \<open>2^128\<close>.
\<close>

type_synonym float = real

definition pow2 :: "int \<Rightarrow> real" where
  "pow2 e = (if 0 \<le> e then 2 ^ nat e else 1 / 2 ^ nat (- e))"

text \<open>For \<open>0 < x\<close>, \<open>ilog2 x\<close> is the exponent \<open>e\<close> with \<open>2^e \<le> x < 2^(e+1)\<close>.\<close>

definition ilog2 :: "real \<Rightarrow> int" where
  "ilog2 x = (if 1 \<le> x then int (floorlog 2 (nat \<lfloor>x\<rfloor>)) - 1
              else - int (floorlog 2 (nat (\<lceil>1 / x\<rceil> - 1))))"

definition round_even :: "real \<Rightarrow> int" where
  "round_even r = (let f = \<lfloor>r\<rfloor>; d = r - of_int f
                   in if d < 1 / 2 then f
                      else if 1 / 2 < d then f + 1
                      else if even f then f else f + 1)"

definition f32 :: "real \<Rightarrow> float" where
  "f32 x = (if x = 0 then 0
            else let a = \<bar>x\<bar>;
                     e = max (ilog2 a) (- 126);
                     u = pow2 (e - 23)
                 in sgn x * of_int (round_even (a / u)) * u)"

subsection \<open>Vec2i, GameConfig, Snake, RNG\<close>

text \<open>
  \<open>sf::Vector2i\<close> is a pair of \<open>int\<close>s. The coordinates of the program stay within one
  cell of the grid and the score within ten times the number of cells, so the 32-bit
  \<open>int\<close>s of the source never overflow and are modelled by \<open>int\<close>.
\<close>

type_synonym Vec2i = "int \<times> int"

definition vadd :: "Vec2i \<Rightarrow> Vec2i \<Rightarrow> Vec2i" where
  "vadd a b = (fst a + fst b, snd a + snd b)"

record GameConfig =
  cellSize :: int
  cols :: int
  rows :: int
  moveInterval :: float

definition GameConfig_default :: GameConfig where
  "GameConfig_default =
     \<lparr>cellSize = 20, cols = 32, rows = 24, moveInterval = f32 (12 / 100)\<rparr>"

record Snake =
  body :: "Vec2i list"
  dir :: Vec2i
  growNext :: bool

text \<open>The constructor pushes \<open>(start.x - i, start.y)\<close> for \<open>i = 0 .. initialLength - 1\<close>.\<close>

definition Snake_new :: "Vec2i \<Rightarrow> int \<Rightarrow> Snake" where
  "Snake_new start initialLength =
     \<lparr>body = map (\<lambda>i. (fst start - i, snd start)) [0 .. initialLength - 1],
      dir = (1, 0), growNext = False\<rparr>"

text \<open>\<open>body.front()\<close>: undefined on an empty deque.\<close>

definition head :: "Snake \<Rightarrow> Vec2i option" where
  "head s = (case body s of [] \<Rightarrow> None | h # _ \<Rightarrow> Some h)"

definition setDirection :: "Vec2i \<Rightarrow> Snake \<Rightarrow> Snake" where
  "setDirection d s =
     (if 1 < length (body s) \<and> d = (- fst (dir s), - snd (dir s)) then s
      else s\<lparr>dir := d\<rparr>)"

definition move :: "Snake \<Rightarrow> Snake option" where
  "move s =
     (case head s of
        None \<Rightarrow> None
      | Some h \<Rightarrow>
          let newHead = vadd h (dir s);
              pushed = newHead # body s;
              popped = (if growNext s then pushed else butlast pushed)
          in Some (s\<lparr>body := popped, growNext := False\<rparr>))"

definition grow :: "Snake \<Rightarrow> Snake" where
  "grow s = s\<lparr>growNext := True\<rparr>"

definition collidesWithSelf :: "Snake \<Rightarrow> bool option" where
  "collidesWithSelf s =
     (case head s of
        None \<Rightarrow> None
      | Some h \<Rightarrow> Some (h \<in> set (drop 1 (body s))))"

definition occupies :: "Snake \<Rightarrow> Vec2i \<Rightarrow> bool" where
  "occupies s p = (p \<in> set (body s))"

text \<open>
  \<open>RNG\<close> wraps a Mersenne twister seeded from the clock. Nothing is known of its output
  but that \<open>nextInt a b\<close> lies in \<open>[a, b]\<close>, so the generator is an arbitrary sequence
  of integers, one for each call to come, and \<open>nextInt\<close> maps the next one into the
  range: every sequence of results the library can give is the image of some sequence.
\<close>

type_synonym RNG = "nat \<Rightarrow> int"

definition nextInt :: "int \<Rightarrow> int \<Rightarrow> RNG \<Rightarrow> int \<times> RNG" where
  "nextInt a b r = (a + r 0 mod (b - a + 1), (\<lambda>n. r (Suc n)))"

subsection \<open>The session: the local variables of main\<close>

datatype Key = Escape | P | R | Up | W | Down | S | Left | A | Right | D | OtherKey

datatype Event = Closed | KeyPressed Key | OtherEvent

text \<open>
  \<open>moveClock\<close> is the time in microseconds since the clock was last restarted
  (\<open>sf::Clock\<close> counts microseconds); \<open>isOpen\<close> is \<open>window.isOpen()\<close>.
\<close>

record Game =
  cfg :: GameConfig
  startPos :: Vec2i
  snake :: Snake
  rng :: RNG
  food :: Vec2i
  score :: int
  paused :: bool
  gameOver :: bool
  moveClock :: int
  acc :: float
  isOpen :: bool

text \<open>The lambda \<open>placeFood\<close>: rejection sampling, two draws for each attempt.\<close>

partial_function (option) placeFood :: "Game \<Rightarrow> Game option" where
  "placeFood g =
     (let x = fst (nextInt 0 (cols (cfg g) - 1) (rng g));
          r1 = snd (nextInt 0 (cols (cfg g) - 1) (rng g));
          y = fst (nextInt 0 (rows (cfg g) - 1) r1);
          r2 = snd (nextInt 0 (rows (cfg g) - 1) r1)
      in if occupies (snake g) (x, y) then placeFood (g\<lparr>rng := r2\<rparr>)
         else Some (g\<lparr>rng := r2, food := (x, y)\<rparr>))"

text \<open>
  The statements of \<open>main\<close> before its loop. The seed is the parameter \<open>r\<close>; \<open>t0\<close> is
  the time between the construction of \<open>moveClock\<close> and the first frame.
\<close>

definition main_init :: "RNG \<Rightarrow> int \<Rightarrow> Game option" where
  "main_init r t0 =
     (let c = GameConfig_default;
          sp = (cols c sdiv 2, rows c sdiv 2)
      in placeFood \<lparr>cfg = c, startPos = sp, snake = Snake_new sp 5, rng = r,
                     food = (0, 0), score = 0, paused = False, gameOver = False,
                     moveClock = t0, acc = 0, isOpen = True\<rparr>)"

text \<open>The handler of key R.\<close>

definition restart :: "Game \<Rightarrow> Game option" where
  "restart g =
     (case placeFood (g\<lparr>snake := Snake_new (startPos g) 5\<rparr>) of
        None \<Rightarrow> None
      | Some g1 \<Rightarrow>
          Some (g1\<lparr>score := 0, paused := False, gameOver := False, moveClock := 0\<rparr>))"

text \<open>The four direction tests, run one after the other when \<open>gameOver\<close> is false.\<close>

definition steer :: "Key \<Rightarrow> Snake \<Rightarrow> Snake" where
  "steer k s =
     (let s1 = (if k = Up \<or> k = W then setDirection (0, - 1) s else s);
          s2 = (if k = Down \<or> k = S then setDirection (0, 1) s1 else s1);
          s3 = (if k = Left \<or> k = A then setDirection (- 1, 0) s2 else s2)
      in if k = Right \<or> k = D then setDirection (1, 0) s3 else s3)"

definition keyPressed :: "Key \<Rightarrow> Game \<Rightarrow> Game option" where
  "keyPressed k g =
     (let g1 = (if k = Escape then g\<lparr>isOpen := False\<rparr> else g);
          g2 = (if k = P then g1\<lparr>paused := \<not> paused g1\<rparr> else g1)
      in case (if k = R then restart g2 else Some g2) of
           None \<Rightarrow> None
         | Some g3 \<Rightarrow>
             Some (if gameOver g3 then g3 else g3\<lparr>snake := steer k (snake g3)\<rparr>))"

fun handleEvent :: "Event \<Rightarrow> Game \<Rightarrow> Game option" where
  "handleEvent Closed g = Some (g\<lparr>isOpen := False\<rparr>)"
| "handleEvent (KeyPressed k) g = keyPressed k g"
| "handleEvent OtherEvent g = Some g"

text \<open>
  The inner loop over \<open>window.pollEvent()\<close>, on the events pending in this frame. Once the
  window is closed the library returns no further event; the list handled by the program
  is then the one that ends with the closing event, which is among the lists of the model.
\<close>

fun pollEvents :: "Event list \<Rightarrow> Game \<Rightarrow> Game option" where
  "pollEvents [] g = Some g"
| "pollEvents (e # es) g =
     (case handleEvent e g of None \<Rightarrow> None | Some g' \<Rightarrow> pollEvents es g')"

declare placeFood.simps [code]

subsection \<open>The update: fixed-interval steps\<close>

text \<open>
  \<open>asSeconds\<close> converts the clock's microseconds to a \<open>float\<close> of seconds, as the
  library does: the count is converted to \<open>float\<close>, which rounds it from \<open>2^24\<close>
  microseconds on, and divided by \<open>1000000.f\<close>.
\<close>

definition asSeconds :: "int \<Rightarrow> float" where
  "asSeconds us = f32 (f32 (of_int us) / 1000000)"

text \<open>
  One pass through the body of the \<open>while\<close> loop after \<open>acc -= cfg.moveInterval\<close>:
  the move, the two collision tests, each ending the loop with \<open>break\<close>, and the food.
\<close>

datatype Flow = Break | Next

definition speedUp :: "Game \<Rightarrow> Game" where
  "speedUp g =
     (if score g smod 50 = 0 \<and> f32 (4 / 100) < moveInterval (cfg g)
      then g\<lparr>cfg := (cfg g)\<lparr>moveInterval := f32 (moveInterval (cfg g) * f32 (92 / 100))\<rparr>\<rparr>
      else g)"

definition outside :: "GameConfig \<Rightarrow> Vec2i \<Rightarrow> bool" where
  "outside c h = (fst h < 0 \<or> cols c \<le> fst h \<or> snd h < 0 \<or> rows c \<le> snd h)"

definition step :: "Game \<Rightarrow> (Flow \<times> Game) option" where
  "step g =
     (case move (snake g) of
        None \<Rightarrow> None
      | Some sn \<Rightarrow>
          let g1 = g\<lparr>snake := sn\<rparr> in
          (case head sn of
             None \<Rightarrow> None
           | Some h \<Rightarrow>
               if outside (cfg g1) h then Some (Break, g1\<lparr>gameOver := True\<rparr>)
               else (case collidesWithSelf sn of
                       None \<Rightarrow> None
                     | Some True \<Rightarrow> Some (Break, g1\<lparr>gameOver := True\<rparr>)
                     | Some False \<Rightarrow>
                         if h = food g1
                         then (case placeFood (g1\<lparr>snake := grow sn, score := score g1 + 10\<rparr>) of
                                 None \<Rightarrow> None
                               | Some g2 \<Rightarrow> Some (Next, speedUp g2))
                         else Some (Next, g1))))"

partial_function (option) moveLoop :: "Game \<Rightarrow> Game option" where
  "moveLoop g =
     (if moveInterval (cfg g) \<le> acc g
      then (case step (g\<lparr>acc := f32 (acc g - moveInterval (cfg g))\<rparr>) of
              None \<Rightarrow> None
            | Some fg \<Rightarrow> if fst fg = Break then Some (snd fg) else moveLoop (snd fg))
      else Some g)"

declare moveLoop.simps [code]

definition update :: "Game \<Rightarrow> Game option" where
  "update g =
     (if \<not> paused g \<and> \<not> gameOver g
      then let dt = asSeconds (moveClock g)
           in moveLoop (g\<lparr>moveClock := 0, acc := f32 (acc g + dt)\<rparr>)
      else Some (g\<lparr>moveClock := 0\<rparr>))"

text \<open>
  One pass through the main loop: the events pending, the update, then rendering and
  \<open>window.display()\<close>, during which \<open>d\<close> microseconds pass (polling and updating take
  no time in the model).
\<close>

definition frame :: "Event list \<Rightarrow> int \<Rightarrow> Game \<Rightarrow> Game option" where
  "frame evs d g =
     (case pollEvents evs g of
        None \<Rightarrow> None
      | Some g1 \<Rightarrow>
          (case update g1 of
             None \<Rightarrow> None
           | Some g2 \<Rightarrow> Some (g2\<lparr>moveClock := moveClock g2 + d\<rparr>)))"

text \<open>\<open>while (window.isOpen())\<close>, on a finite list of frames.\<close>

fun run :: "(Event list \<times> int) list \<Rightarrow> Game \<Rightarrow> Game option" where
  "run [] g = Some g"
| "run (f # fs) g =
     (if isOpen g
      then (case frame (fst f) (snd f) g of None \<Rightarrow> None | Some g' \<Rightarrow> run fs g')
      else Some g)"

subsection \<open>Lifecycle and reachable states\<close>

text \<open>
  The session's lifecycle state, read off the two flags: \<open>gameOver\<close> wins, since neither
  the update nor a direction key acts while it is set, whatever \<open>paused\<close> is.
\<close>

datatype Lifecycle = Running | Paused | GameOver

definition lifecycle :: "Game \<Rightarrow> Lifecycle" where
  "lifecycle g = (if gameOver g then GameOver else if paused g then Paused else Running)"

text \<open>
  The states the program shows: after the initialisation, for any seed, and after
  each frame, for any events and any duration that is not negative.
\<close>

inductive reachable :: "Game \<Rightarrow> bool" where
  reachable_init: "main_init r t0 = Some g \<Longrightarrow> 0 \<le> t0 \<Longrightarrow> reachable g"
| reachable_frame: "reachable g \<Longrightarrow> isOpen g \<Longrightarrow> 0 \<le> d \<Longrightarrow> frame evs d g = Some g'
     \<Longrightarrow> reachable g'"

subsection \<open>Auxiliary notions for the statements\<close>

text \<open>The cell that the \<open>k\<close>-th attempt of \<open>placeFood\<close> draws, counted from \<open>0\<close>.\<close>

definition sample :: "Game \<Rightarrow> nat \<Rightarrow> Vec2i" where
  "sample g k = (fst (nextInt 0 (cols (cfg g) - 1) (\<lambda>n. rng g (2 * k + n))),
                 fst (nextInt 0 (rows (cfg g) - 1) (\<lambda>n. rng g (2 * k + 1 + n))))"

text \<open>Several calls of \<open>setDirection\<close> in a row, as the key handler makes them between two steps.\<close>

fun setDirections :: "Vec2i list \<Rightarrow> Snake \<Rightarrow> Snake" where
  "setDirections [] s = s"
| "setDirections (d # ds) s = setDirections ds (setDirection d s)"




text \<open>
  The grid is 32 by 24 and the start is its centre; the food is on a cell of the grid
  that the snake does not occupy; unless the session is game over, every segment of
  the snake is on the grid.
\<close>

definition tidy :: "Game \<Rightarrow> bool" where
  "tidy g \<longleftrightarrow>
     cols (cfg g) = 32 \<and> rows (cfg g) = 24 \<and> startPos g = (16, 12) \<and>
     food g \<notin> set (body (snake g)) \<and> \<not> outside (cfg g) (food g) \<and>
     (gameOver g \<or> list_all (\<lambda>p. \<not> outside (cfg g) p) (body (snake g)))"

subsection \<open>Concrete sessions\<close>

text \<open>
  A random source whose first outcomes are the list \<open>xs\<close> and every later one \<open>0\<close>, and
  the session that \<open>main\<close> builds when the food lands on \<open>f\<close> and \<open>xs\<close> is what is left
  of the source.
\<close>

definition draws :: "int list \<Rightarrow> RNG" where
  "draws xs = (\<lambda>n. if n < length xs then xs ! n else 0)"

definition session0 :: "int list \<Rightarrow> Vec2i \<Rightarrow> Game" where
  "session0 xs f =
     \<lparr>cfg = GameConfig_default, startPos = (16, 12), snake = Snake_new (16, 12) 5,
      rng = draws xs, food = f, score = 0, paused = False, gameOver = False,
      moveClock = 0, acc = 0, isOpen = True\<rparr>"

text \<open>
  The session after the snake has eaten at \<open>(17, 12)\<close> on its first step, the food
  then landing on \<open>f\<close>, and the session one step later when that step eats nothing.
\<close>

definition fed :: "Vec2i \<Rightarrow> Game" where
  "fed f =
     (session0 [] f)
       \<lparr>snake := \<lparr>body = [(17, 12), (16, 12), (15, 12), (14, 12), (13, 12)],
                   dir = (1, 0), growNext = True\<rparr>,
        score := 10\<rparr>"

definition grown :: Game where
  "grown =
     (fed (0, 0))
       \<lparr>snake := \<lparr>body = [(18, 12), (17, 12), (16, 12), (15, 12), (14, 12), (13, 12)],
                   dir = (1, 0), growNext = False\<rparr>\<rparr>"

text \<open>
  A snake coiled around six cells. From \<open>session0 [] (17, 12)\<close> it eats on the first
  step, grows on the second, turns Up, turns Left and goes on one cell: \<open>coil\<close> is the
  session after these five steps. Key Down then stores the direction that leads the
  head to the cell of the tail (\<open>coil_down\<close>), and the step enters it (\<open>coiled\<close>).
\<close>

definition coil :: Game where
  "coil =
     (session0 [] (0, 0))
       \<lparr>snake := \<lparr>body = [(16, 11), (17, 11), (18, 11), (18, 12), (17, 12), (16, 12)],
                   dir = (- 1, 0), growNext = False\<rparr>,
        score := 10, moveClock := 120000\<rparr>"

definition coil_down :: Game where
  "coil_down = coil\<lparr>snake := (snake coil)\<lparr>dir := (0, 1)\<rparr>\<rparr>"

definition coiled :: Game where
  "coiled =
     coil_down
       \<lparr>snake := \<lparr>body = [(16, 12), (16, 11), (17, 11), (18, 11), (18, 12), (17, 12)],
                   dir = (0, 1), growNext = False\<rparr>\<rparr>"

text \<open>The session after a second meal on the very next step, at \<open>(18, 12)\<close>.\<close>

definition fed_twice :: Game where
  "fed_twice =
     (fed (0, 0))
       \<lparr>snake := \<lparr>body = [(18, 12), (17, 12), (16, 12), (15, 12), (14, 12), (13, 12)],
                   dir = (1, 0), growNext = True\<rparr>,
        score := 20\<rparr>"

text \<open>
  The session after fifteen steps to the Right from \<open>session0 [] (0, 0)\<close>: the head is
  in the last column.
\<close>

definition at_wall :: Game where
  "at_wall = (session0 [] (0, 0))\<lparr>snake := Snake_new (31, 12) 5, moveClock := 120000\<rparr>"

text \<open>
  Three sessions of one run from \<open>session0 [] (0, 0)\<close>: after a first frame that takes
  a second to draw; after a second frame in which keys Up and Left are pressed, whose
  single step runs the head into the body; and after a third frame in which key R is
  pressed at once.
\<close>

definition stalled :: Game where
  "stalled = (session0 [] (0, 0))\<lparr>moveClock := 1000000\<rparr>"

definition crashed :: Game where
  "crashed =
     (session0 [] (0, 0))
       \<lparr>snake := \<lparr>body = [(15, 12), (16, 12), (15, 12), (14, 12), (13, 12)],
                   dir = (- 1, 0), growNext = False\<rparr>,
        gameOver := True, acc := 118111600 / 2 ^ 27\<rparr>"

definition burst :: Game where
  "burst =
     (session0 [] (0, 0))
       \<lparr>snake := \<lparr>body = [(23, 12), (22, 12), (21, 12), (20, 12), (19, 12)],
                   dir = (1, 0), growNext = False\<rparr>,
        acc := 5368705 / 2 ^ 27\<rparr>"



text \<open>
  The sessions after four and after five meals in a row from \<open>(17, 12)\<close> to \<open>(21, 12)\<close>,
  the fifth taking the score to 50 and the interval to \<open>0.12f * 0.92f\<close>.
\<close>

definition meals4 :: Game where
  "meals4 =
     (session0 [] (21, 12))
       \<lparr>snake := \<lparr>body = [(20, 12), (19, 12), (18, 12), (17, 12), (16, 12), (15, 12),
                          (14, 12), (13, 12)],
                   dir = (1, 0), growNext = True\<rparr>,
        score := 40\<rparr>"

definition meals5 :: Game where
  "meals5 =
     (session0 [] (0, 0))
       \<lparr>cfg := GameConfig_default\<lparr>moveInterval := 14817637 / 2 ^ 27\<rparr>,
        snake := \<lparr>body = [(21, 12), (20, 12), (19, 12), (18, 12), (17, 12), (16, 12),
                          (15, 12), (14, 12), (13, 12)],
                   dir = (1, 0), growNext = True\<rparr>,
        score := 50\<rparr>"

text \<open>
  A session with the interval that fourteen speed-ups leave, the snake having just
  eaten.
\<close>

definition fast14 :: Game where
  "fast14 =
     (fed (0, 0))
       \<lparr>cfg := GameConfig_default\<lparr>moveInterval := 20048450 / 2 ^ 29\<rparr>, score := 700\<rparr>"

text \<open>
  A whole game of seventy meals. The food is drawn, every time, on the cell ahead of
  the head: along row 12 to the last column, down one cell, back along row 13 to the
  first column, down one cell, and along row 14. Each frame lasts just long enough
  for the next update to take one step; the keys that turn the snake are pressed in
  the frames of the four corners.
\<close>

definition long_draws :: "int list" where
  "long_draws =
     [18, 12, 19, 12, 20, 12, 21, 12, 22, 12, 23, 12, 24, 12, 25, 12, 26, 12, 27, 12,
      28, 12, 29, 12, 30, 12, 31, 12, 31, 13, 30, 13, 29, 13, 28, 13, 27, 13, 26, 13,
      25, 13, 24, 13, 23, 13, 22, 13, 21, 13, 20, 13, 19, 13, 18, 13, 17, 13, 16, 13,
      15, 13, 14, 13, 13, 13, 12, 13, 11, 13, 10, 13, 9, 13, 8, 13, 7, 13, 6, 13, 5,
      13, 4, 13, 3, 13, 2, 13, 1, 13, 0, 13, 0, 14, 1, 14, 2, 14, 3, 14, 4, 14, 5,
      14, 6, 14, 7, 14, 8, 14, 9, 14, 10, 14, 11, 14, 12, 14, 13, 14, 14, 14, 15, 14,
      16, 14, 17, 14, 18, 14, 19, 14, 20, 14, 21, 14, 22, 14]"

definition long_frames :: "(Event list \<times> int) list" where
  "long_frames =
     [([], 120000), ([], 120000), ([], 120000), ([], 120000), ([], 120000),
      ([], 111000), ([], 110000), ([], 111000), ([], 110000), ([], 110000),
      ([], 102000), ([], 102000), ([], 101000), ([], 102000), ([], 101000),
      ([], 94000), ([KeyPressed Down], 93000), ([KeyPressed Left], 94000),
      ([], 93000), ([], 94000), ([], 86000), ([], 85000), ([], 86000), ([], 86000),
      ([], 86000), ([], 79000), ([], 80000), ([], 79000), ([], 79000), ([], 79000),
      ([], 73000), ([], 72000), ([], 73000), ([], 73000), ([], 73000), ([], 67000),
      ([], 67000), ([], 66000), ([], 67000), ([], 67000), ([], 62000), ([], 62000),
      ([], 61000), ([], 62000), ([], 61000), ([], 57000), ([], 57000), ([], 56000),
      ([KeyPressed Down], 57000), ([KeyPressed Right], 57000), ([], 52000),
      ([], 52000), ([], 52000), ([], 52000), ([], 52000), ([], 48000), ([], 48000),
      ([], 48000), ([], 48000), ([], 48000), ([], 44000), ([], 44000), ([], 44000),
      ([], 44000), ([], 45000), ([], 40000), ([], 41000), ([], 40000), ([], 41000),
      ([], 41000), ([], 37000)]"

text \<open>
  The numerators over \<open>2^29\<close> of the initial interval \<open>0.12f\<close> and of its successive
  products by \<open>0.92f\<close>, down to the first one below \<open>0.04f\<close>.
\<close>

definition intervals :: "real list" where
  "intervals = [64424508, 59270548, 54528904, 50166592, 46153264, 42461004, 39064124,
     35938996, 33063876, 30418766, 27985266, 25746446, 23686730, 21791792, 20048450]"

section \<open>Properties\<close>

subsection \<open>placeFood\<close>

lemma placeFood_unfold:
  "placeFood g =
     (if occupies (snake g) (sample g 0) then placeFood (g\<lparr>rng := (\<lambda>n. rng g (Suc (Suc n)))\<rparr>)
      else Some (g\<lparr>rng := (\<lambda>n. rng g (Suc (Suc n))), food := sample g 0\<rparr>))"
  by (subst placeFood.simps) (simp add: Let_def nextInt_def sample_def)

lemma sample_shift: "sample (g\<lparr>rng := (\<lambda>n. rng g (Suc (Suc n)))\<rparr>) k = sample g (Suc k)"
  by (simp add: sample_def nextInt_def add.commute add.left_commute)

lemma placeFood_frame:
  assumes "placeFood g = Some g'"
  shows "\<exists>k. g' = g\<lparr>rng := (\<lambda>n. rng g (2 * Suc k + n)), food := sample g k\<rparr> \<and>
         \<not> occupies (snake g) (sample g k)"
  using assms
proof (induction g g' rule: placeFood.raw_induct[rotated, consumes 1])
  case (1 pf g g')
  let ?g1 = "g\<lparr>rng := (\<lambda>n. rng g (Suc (Suc n)))\<rparr>"
  have body: "(if occupies (snake g) (sample g 0) then pf ?g1
               else Some (g\<lparr>rng := (\<lambda>n. rng g (Suc (Suc n))), food := sample g 0\<rparr>)) = Some g'"
    using 1(2) by (simp add: Let_def nextInt_def sample_def split: if_splits)
  show ?case
  proof (cases "occupies (snake g) (sample g 0)")
    case False
    with body have "g' = g\<lparr>rng := (\<lambda>n. rng g (2 * Suc 0 + n)), food := sample g 0\<rparr>"
      by simp
    with False show ?thesis by blast
  next
    case True
    with body have "pf ?g1 = Some g'" by simp
    then have "\<exists>k. g' = ?g1\<lparr>rng := (\<lambda>n. rng ?g1 (2 * Suc k + n)), food := sample ?g1 k\<rparr> \<and>
         \<not> occupies (snake ?g1) (sample ?g1 k)"
      by (rule 1(1))
    then obtain k where k: "g' = ?g1\<lparr>rng := (\<lambda>n. rng ?g1 (2 * Suc k + n)), food := sample ?g1 k\<rparr>"
      and free: "\<not> occupies (snake ?g1) (sample ?g1 k)"
      by blast
    from k have "g' = g\<lparr>rng := (\<lambda>n. rng g (2 * Suc (Suc k) + n)), food := sample g (Suc k)\<rparr>"
      by (simp add: sample_shift)
    moreover from free have "\<not> occupies (snake g) (sample g (Suc k))"
      by (simp add: sample_shift)
    ultimately show ?thesis by blast
  qed
qed

lemma placeFood_returns:
  "\<not> occupies (snake g) (sample g k) \<Longrightarrow> \<exists>g'. placeFood g = Some g'"
proof (induction k arbitrary: g)
  case 0
  then show ?case by (subst placeFood_unfold) simp
next
  case (Suc k)
  show ?case
  proof (cases "occupies (snake g) (sample g 0)")
    case False
    then show ?thesis by (subst placeFood_unfold) simp
  next
    case True
    have "\<not> occupies (snake (g\<lparr>rng := (\<lambda>n. rng g (Suc (Suc n)))\<rparr>)) (sample (g\<lparr>rng := (\<lambda>n. rng g (Suc (Suc n)))\<rparr>) k)"
      using Suc.prems by (simp add: sample_shift)
    from Suc.IH[OF this] True show ?thesis
      by (subst placeFood_unfold) simp
  qed
qed


lemma move_Cons:
  "body s = h # t \<Longrightarrow>
   move s = Some (s\<lparr>body := vadd h (dir s) # (if growNext s then h # t else butlast (h # t)),
                     growNext := False\<rparr>)"
  by (simp add: move_def head_def Let_def)

lemma move_None: "body s = [] \<Longrightarrow> move s = None"
  by (simp add: move_def head_def)

lemma step_None: "body (snake g) = [] \<Longrightarrow> step g = None"
  by (simp add: step_def move_None)

lemma step_Cons:
  assumes "body (snake g) = h # t"
  shows "step g =
     (let nh = vadd h (dir (snake g));
          rest = (if growNext (snake g) then h # t else butlast (h # t));
          sn = (snake g)\<lparr>body := nh # rest, growNext := False\<rparr>;
          g1 = g\<lparr>snake := sn\<rparr>
      in if outside (cfg g) nh \<or> nh \<in> set rest then Some (Break, g1\<lparr>gameOver := True\<rparr>)
         else if nh = food g
              then (case placeFood (g1\<lparr>snake := grow sn, score := score g + 10\<rparr>) of
                      None \<Rightarrow> None
                    | Some g2 \<Rightarrow> Some (Next, speedUp g2))
              else Some (Next, g1))"
  using assms
  by (simp add: step_def move_Cons head_def collidesWithSelf_def Let_def)

subsection \<open>Evaluation\<close>

lemma floorlog2_numeral: "floorlog 2 (numeral n) = floorlog 2 (numeral n div 2) + 1"
  by (subst compute_floorlog) simp

lemma floorlog2_small: "floorlog 2 0 = 0" "floorlog 2 1 = 1" "floorlog 2 (Suc 0) = 1"
  by (simp_all add: compute_floorlog)

text \<open>
  The rounding with each intermediate value bound once, so that the simplifier computes
  it once.
\<close>

lemma f32_staged:
  "f32 x = (if x = 0 then 0 else
     (let e = max (ilog2 \<bar>x\<bar>) (- 126) in
      let u = pow2 (e - 23) in
      let q = \<bar>x\<bar> / u in
      let f = \<lfloor>q\<rfloor> in
      let d = q - of_int f in
      let m = (if d < 1 / 2 then f else if 1 / 2 < d then f + 1 else if even f then f else f + 1)
      in sgn x * of_int m * u))"
  by (simp add: f32_def round_even_def Let_def)

lemmas f32_eval = f32_staged ilog2_def floorlog2_numeral floorlog2_small pow2_def

lemma f32_012: "f32 (12 / 100) = 16106127 / 2 ^ 27"
  by (simp add: f32_eval)

lemma f32_092: "f32 (92 / 100) = 15435039 / 2 ^ 24"
  by (simp add: f32_eval)

lemma f32_004: "f32 (4 / 100) = 10737418 / 2 ^ 28"
  by (simp add: f32_eval)

lemma draws_Nil [simp]: "draws [] n = 0"
  by (simp add: draws_def)

lemma draws_0 [simp]: "draws (x # xs) 0 = x"
  by (simp add: draws_def)

lemma draws_Suc [simp]: "draws (x # xs) (Suc n) = draws xs n"
  by (simp add: draws_def)

lemma upto_0_4: "[0 .. 4 :: int] = [0, 1, 2, 3, 4]"
  by (simp add: upto.simps)

lemma Snake_new_5: "Snake_new (x, y) 5 =
  \<lparr>body = [(x, y), (x - 1, y), (x - 2, y), (x - 3, y), (x - 4, y)], dir = (1, 0), growNext = False\<rparr>"
  by (simp add: Snake_new_def upto_0_4)

lemma sample_draws: "sample (g\<lparr>rng := draws (x # y # xs)\<rparr>) 0 = (x mod cols (cfg g), y mod rows (cfg g))"
  by (simp add: sample_def nextInt_def)

lemma placeFood_draws:
  "rng g = draws (x # y # xs) \<Longrightarrow>
   placeFood g =
     (if occupies (snake g) (x mod cols (cfg g), y mod rows (cfg g))
      then placeFood (g\<lparr>rng := draws xs\<rparr>)
      else Some (g\<lparr>rng := draws xs, food := (x mod cols (cfg g), y mod rows (cfg g))\<rparr>))"
  by (subst placeFood_unfold) (simp add: sample_def nextInt_def)

lemma placeFood_draws_Nil:
  "rng g = draws [] \<Longrightarrow> \<not> occupies (snake g) (0, 0) \<Longrightarrow>
   placeFood g = Some (g\<lparr>rng := draws [], food := (0, 0)\<rparr>)"
  by (subst placeFood_unfold) (simp add: sample_def nextInt_def draws_def)

lemma main_init_draws:
  "(x mod 32, y mod 24) \<notin> set (body (Snake_new (16, 12) 5)) \<Longrightarrow>
   main_init (draws (x # y # xs)) t0 = Some ((session0 xs (x mod 32, y mod 24))\<lparr>moveClock := t0\<rparr>)"
  by (simp add: main_init_def session0_def Let_def GameConfig_default_def signed_divide_int_def
      placeFood_draws occupies_def)

lemma main_init_Nil:
  "main_init (draws []) t0 = Some ((session0 [] (0, 0))\<lparr>moveClock := t0\<rparr>)"
  by (simp add: main_init_def session0_def Let_def GameConfig_default_def signed_divide_int_def
      placeFood_draws_Nil occupies_def Snake_new_5)


subsection \<open>setDirection\<close>

lemma setDirections_same:
  "body (setDirections ds s) = body s \<and> growNext (setDirections ds s) = growNext s"
  by (induction ds arbitrary: s) (simp_all add: setDirection_def)

lemma setDirections_snoc: "setDirections (ds @ [d]) s = setDirection d (setDirections ds s)"
  by (induction ds arbitrary: s) simp_all

text \<open>
  C8. \<open>setDirection d\<close> leaves the snake as it is when \<open>d\<close> is the reverse of the stored
  direction and the body has more than one segment. Otherwise it stores \<open>d\<close> and changes
  nothing else, and the next \<open>move\<close> puts the head at the old head plus \<open>d\<close>. After any
  calls \<open>ds\<close>, the body and the growth flag are untouched, and one more call with \<open>d\<close>
  either is refused, leaving what was stored, or overwrites it with \<open>d\<close>: nothing is queued.
\<close>

theorem C8_setDirection:
  "(1 < length (body s) \<and> d = (- fst (dir s), - snd (dir s)) \<longrightarrow> setDirection d s = s) \<and>
   (\<not> (1 < length (body s) \<and> d = (- fst (dir s), - snd (dir s))) \<longrightarrow>
      setDirection d s = s\<lparr>dir := d\<rparr> \<and>
      (\<forall>h. head s = Some h \<longrightarrow>
         (\<exists>s'. move (setDirection d s) = Some s' \<and> head s' = Some (vadd h d)))) \<and>
   body (setDirections ds s) = body s \<and>
   growNext (setDirections ds s) = growNext s \<and>
   dir (setDirections (ds @ [d]) s) =
     (if 1 < length (body s) \<and>
         d = (- fst (dir (setDirections ds s)), - snd (dir (setDirections ds s)))
      then dir (setDirections ds s) else d)"
proof -
  have refused: "1 < length (body s) \<and> d = (- fst (dir s), - snd (dir s)) \<longrightarrow> setDirection d s = s"
    by (simp add: setDirection_def)
  have stored: "\<not> (1 < length (body s) \<and> d = (- fst (dir s), - snd (dir s))) \<longrightarrow>
      setDirection d s = s\<lparr>dir := d\<rparr> \<and>
      (\<forall>h. head s = Some h \<longrightarrow>
         (\<exists>s'. move (setDirection d s) = Some s' \<and> head s' = Some (vadd h d)))"
    by (auto simp: setDirection_def move_def head_def Let_def split: list.splits)
  have same: "body (setDirections ds s) = body s" "growNext (setDirections ds s) = growNext s"
    by (simp_all add: setDirections_same)
  have last: "dir (setDirections (ds @ [d]) s) =
     (if 1 < length (body s) \<and>
         d = (- fst (dir (setDirections ds s)), - snd (dir (setDirections ds s)))
      then dir (setDirections ds s) else d)"
    by (simp add: setDirections_snoc setDirection_def same)
  from refused stored same last show ?thesis by blast
qed

theorem C8_setDirection_witness:
  "1 < length (body (Snake_new (16, 12) 5)) \<and>
   setDirection (- 1, 0) (Snake_new (16, 12) 5) = Snake_new (16, 12) 5 \<and>
   setDirection (0, - 1) (Snake_new (16, 12) 5) = (Snake_new (16, 12) 5)\<lparr>dir := (0, - 1)\<rparr> \<and>
   (\<exists>s'. move (setDirection (0, - 1) (Snake_new (16, 12) 5)) = Some s' \<and> head s' = Some (16, 11)) \<and>
   dir (setDirections ([(0, - 1), (0, 1)] @ [(- 1, 0)]) (Snake_new (16, 12) 5)) = (- 1, 0)"
  using C8_setDirection [of "Snake_new (16, 12) 5" "(- 1, 0)" "[(0, - 1), (0, 1)]"]
    C8_setDirection [of "Snake_new (16, 12) 5" "(0, - 1)" "[]"]
  by (simp add: Snake_new_5 head_def vadd_def setDirection_def)

lemmas game_eval = step_def move_def head_def collidesWithSelf_def outside_def vadd_def
  grow_def occupies_def Snake_new_5 GameConfig_default_def session0_def
  keyPressed_def steer_def setDirection_def

lemma main_init_session0: "main_init (draws []) 0 = Some (session0 [] (0, 0))"
  by (simp add: main_init_Nil session0_def)

subsection \<open>A reversal through two calls\<close>

text \<open>
  C9. In the session that \<open>main\<close> builds, let one step move the head Right to
  \<open>(17, 12)\<close>. Key Left alone is then refused. Keys Up and Left in the same frame are both
  accepted, each being tested against the direction stored by the call before and not
  against the direction of the last step: the stored direction is then the reverse of
  that of the last step, and the next step puts the head on the second segment and
  ends the game.
\<close>

theorem C9_two_calls_reverse:
  "\<exists>g1 g2 g3.
     main_init (draws []) 0 = Some (session0 [] (0, 0)) \<and>
     step (session0 [] (0, 0)) = Some (Next, g1) \<and>
     head (snake g1) = Some (17, 12) \<and> dir (snake g1) = (1, 0) \<and>
     pollEvents [KeyPressed Left] g1 = Some g1 \<and>
     snake g2 = setDirection (- 1, 0) (setDirection (0, - 1) (snake g1)) \<and>
     pollEvents [KeyPressed Up, KeyPressed Left] g1 = Some g2 \<and>
     dir (snake g2) = (- 1, 0) \<and> 1 < length (body (snake g2)) \<and>
     step g2 = Some (Break, g3) \<and>
     head (snake g3) = Some (body (snake g2) ! 1) \<and>
     collidesWithSelf (snake g3) = Some True \<and> gameOver g3"
proof -
  let ?g1 = "(session0 [] (0, 0))
    \<lparr>snake := \<lparr>body = [(17, 12), (16, 12), (15, 12), (14, 12), (13, 12)], dir = (1, 0),
                growNext = False\<rparr>\<rparr>"
  let ?g2 = "?g1\<lparr>snake := \<lparr>body = [(17, 12), (16, 12), (15, 12), (14, 12), (13, 12)],
                dir = (- 1, 0), growNext = False\<rparr>\<rparr>"
  let ?g3 = "?g2\<lparr>snake := \<lparr>body = [(16, 12), (17, 12), (16, 12), (15, 12), (14, 12)],
                dir = (- 1, 0), growNext = False\<rparr>, gameOver := True\<rparr>"
  have s1: "step (session0 [] (0, 0)) = Some (Next, ?g1)"
    by (simp add: game_eval)
  have left: "pollEvents [KeyPressed Left] ?g1 = Some ?g1"
    by (simp add: game_eval)
  have both: "pollEvents [KeyPressed Up, KeyPressed Left] ?g1 = Some ?g2"
    by (simp add: game_eval)
  have calls: "snake ?g2 = setDirection (- 1, 0) (setDirection (0, - 1) (snake ?g1))"
    by (simp add: game_eval)
  have s2: "step ?g2 = Some (Break, ?g3)"
    by (simp add: game_eval)
  have obs: "head (snake ?g1) = Some (17, 12)" "dir (snake ?g1) = (1, 0)"
    "dir (snake ?g2) = (- 1, 0)" "1 < length (body (snake ?g2))"
    "head (snake ?g3) = Some (body (snake ?g2) ! 1)"
    "collidesWithSelf (snake ?g3) = Some True" "gameOver ?g3"
    by (simp_all add: game_eval)
  from main_init_session0 s1 left both calls s2 obs show ?thesis
    by blast
qed

subsection \<open>A step that meets nothing\<close>

lemma butlast_shift:
  "0 < i \<Longrightarrow> i < length xs \<Longrightarrow> (nh # butlast xs) ! i = xs ! (i - 1)"
  by (cases i) (simp_all add: nth_butlast)

lemma last_notin_butlast: "distinct xs \<Longrightarrow> xs \<noteq> [] \<Longrightarrow> last xs \<notin> set (butlast xs)"
  by (metis append_butlast_last_id distinct_butlast not_distinct_conv_prefix snoc_eq_iff_butlast)

text \<open>
  C4 as amended. Let the growth flag be unset and the body without repetition, and let
  the move put the head on a cell that is inside the grid, is not on the body as the
  move left it and is not the food. Then the step goes on to the next pass of the loop
  having changed the snake only, the body is as long as before, the new head is the old
  head plus the direction, every other segment is where its predecessor was, and the
  cell of the old tail is free unless the new head has just entered it.
\<close>

theorem C4_step_shifts_body:
  assumes "move (snake g) = Some sn" and "head sn = Some nh"
    and "\<not> growNext (snake g)" and "distinct (body (snake g))"
    and "\<not> outside (cfg g) nh" and "collidesWithSelf sn = Some False" and "nh \<noteq> food g"
  shows "step g = Some (Next, g\<lparr>snake := sn\<rparr>) \<and>
     length (body sn) = length (body (snake g)) \<and>
     map_option (\<lambda>h. vadd h (dir (snake g))) (head (snake g)) = Some nh \<and>
     (\<forall>i. 0 < i \<and> i < length (body sn) \<longrightarrow> body sn ! i = body (snake g) ! (i - 1)) \<and>
     (nh \<noteq> last (body (snake g)) \<longrightarrow> last (body (snake g)) \<notin> set (body sn))"
proof -
  from assms(1) obtain h t where ht: "body (snake g) = h # t"
    by (cases "body (snake g)") (auto simp: move_None)
  with assms(1,3) have sn: "sn = (snake g)\<lparr>body := vadd h (dir (snake g)) # butlast (h # t),
      growNext := False\<rparr>"
    by (simp add: move_Cons)
  with assms(2) have nh: "nh = vadd h (dir (snake g))"
    by (simp add: head_def)
  from assms(6) sn nh have free: "nh \<notin> set (butlast (h # t))"
    by (simp add: collidesWithSelf_def head_def)
  have "step g = Some (Next, g\<lparr>snake := sn\<rparr>)"
    using ht assms(3,5,7) free sn nh by (simp add: step_Cons Let_def)
  moreover have "length (body sn) = length (body (snake g))"
    using sn ht by simp
  moreover have "map_option (\<lambda>h. vadd h (dir (snake g))) (head (snake g)) = Some nh"
    using ht nh by (simp add: head_def)
  moreover have "\<forall>i. 0 < i \<and> i < length (body sn) \<longrightarrow> body sn ! i = body (snake g) ! (i - 1)"
    using sn ht butlast_shift [of _ "h # t"] by (simp del: butlast.simps)
  moreover have "nh \<noteq> last (body (snake g)) \<longrightarrow> last (body (snake g)) \<notin> set (body sn)"
    using sn ht nh assms(4) last_notin_butlast [of "h # t"] by auto
  ultimately show ?thesis by blast
qed

theorem C4_step_shifts_body_witness:
  "move (snake (session0 [] (0, 0))) =
     Some \<lparr>body = [(17, 12), (16, 12), (15, 12), (14, 12), (13, 12)], dir = (1, 0), growNext = False\<rparr> \<and>
   \<not> growNext (snake (session0 [] (0, 0))) \<and>
   distinct (body (snake (session0 [] (0, 0)))) \<and>
   \<not> outside (cfg (session0 [] (0, 0))) (17, 12) \<and>
   (17, 12) \<noteq> food (session0 [] (0, 0)) \<and>
   step (session0 [] (0, 0)) =
     Some (Next, (session0 [] (0, 0))
       \<lparr>snake := \<lparr>body = [(17, 12), (16, 12), (15, 12), (14, 12), (13, 12)], dir = (1, 0),
                   growNext = False\<rparr>\<rparr>) \<and>
   last (body (snake (session0 [] (0, 0)))) = (12, 12)"
proof -
  let ?g = "session0 [] (0, 0)"
  let ?sn = "\<lparr>body = [(17, 12), (16, 12), (15, 12), (14, 12), (13, 12)], dir = (1, 0), growNext = False\<rparr>"
  have hyps: "move (snake ?g) = Some ?sn" "head ?sn = Some (17, 12)" "\<not> growNext (snake ?g)"
    "distinct (body (snake ?g))" "\<not> outside (cfg ?g) (17, 12)"
    "collidesWithSelf ?sn = Some False" "(17, 12) \<noteq> food ?g"
    by (simp_all add: game_eval)
  have "last (body (snake ?g)) = (12, 12)"
    by (simp add: game_eval)
  with hyps C4_step_shifts_body [OF hyps] show ?thesis
    by simp
qed


lemmas frame_eval = frame_def update_def asSeconds_def moveLoop.simps game_eval placeFood_draws
  placeFood_draws_Nil speedUp_def signed_modulo_int_def f32_eval

lemma f32_0 [simp]: "f32 0 = 0"
  by (simp add: f32_def)

lemma run_coil:
  "run [([], 120000), ([], 120000), ([], 120000), ([KeyPressed Up], 120000),
        ([KeyPressed Left], 120000), ([], 120000)] (session0 [] (17, 12)) = Some coil"
  by (simp add: coil_def frame_eval)

lemma keys_coil: "pollEvents [KeyPressed Down] coil = Some coil_down"
  by (simp add: coil_def coil_down_def game_eval)

lemma step_coil: "step coil_down = Some (Next, coiled)"
  by (simp add: coil_def coil_down_def coiled_def game_eval)

text \<open>
  C4 as stated fails in two ways. The step after one that ate meets nothing and still
  lengthens the body, from five segments to six: the growth flag was pending. And when
  the head enters the cell the tail has just left, on the sixth step of a game, the
  step meets nothing by the tests of the code, yet the cell of the old tail is
  occupied again.
\<close>

theorem C4_counterexample:
  "main_init (draws [17, 12]) 0 = Some (session0 [] (17, 12)) \<and>
   step (session0 [] (17, 12)) = Some (Next, fed (0, 0)) \<and>
   step (fed (0, 0)) = Some (Next, grown) \<and>
   head (snake grown) = Some (18, 12) \<and>
   \<not> outside (cfg (fed (0, 0))) (18, 12) \<and>
   collidesWithSelf (snake grown) = Some False \<and>
   (18, 12) \<noteq> food (fed (0, 0)) \<and>
   score grown = score (fed (0, 0)) \<and>
   length (body (snake (fed (0, 0)))) = 5 \<and>
   length (body (snake grown)) = 6 \<and>
   run [([], 120000), ([], 120000), ([], 120000), ([KeyPressed Up], 120000),
        ([KeyPressed Left], 120000), ([], 120000)] (session0 [] (17, 12)) = Some coil \<and>
   pollEvents [KeyPressed Down] coil = Some coil_down \<and>
   step coil_down = Some (Next, coiled) \<and>
   \<not> growNext (snake coil_down) \<and>
   collidesWithSelf (snake coiled) = Some False \<and>
   score coiled = score coil_down \<and>
   last (body (snake coil_down)) \<in> set (body (snake coiled))"
proof -
  have init: "main_init (draws [17, 12]) 0 = Some (session0 [] (17, 12))"
    using main_init_draws [of 17 12 "[]" 0] by (simp add: Snake_new_5 session0_def)
  have eat: "step (session0 [] (17, 12)) = Some (Next, fed (0, 0))"
    by (simp add: game_eval fed_def placeFood_draws_Nil speedUp_def signed_modulo_int_def)
  have grow: "step (fed (0, 0)) = Some (Next, grown)"
    by (simp add: game_eval fed_def grown_def)
  have obs: "head (snake grown) = Some (18, 12)" "\<not> outside (cfg (fed (0, 0))) (18, 12)"
    "collidesWithSelf (snake grown) = Some False" "(18, 12) \<noteq> food (fed (0, 0))"
    "score grown = score (fed (0, 0))" "length (body (snake (fed (0, 0)))) = 5"
    "length (body (snake grown)) = 6"
    by (simp_all add: game_eval fed_def grown_def)
  have tail: "\<not> growNext (snake coil_down)"
    "collidesWithSelf (snake coiled) = Some False"
    "score coiled = score coil_down"
    "last (body (snake coil_down)) \<in> set (body (snake coiled))"
    by (simp_all add: game_eval coil_def coil_down_def coiled_def)
  from init eat grow obs run_coil keys_coil step_coil tail show ?thesis
    by (simp only: simp_thms)
qed

subsection \<open>The head enters the cell of the tail\<close>

text \<open>
  C10. In a running session whose body has no repetition and whose growth flag is
  unset, let the head plus the direction be the cell of the tail, inside the grid,
  and let the food be off the body. Then the step pops the tail before it tests for a
  collision: \<open>collidesWithSelf\<close> is false, the loop goes on and the session is still
  running, the old tail cell now holding the head.
\<close>

theorem C10_head_onto_tail:
  assumes "head (snake g) = Some h" and "\<not> growNext (snake g)"
    and "vadd h (dir (snake g)) = last (body (snake g))"
    and "distinct (body (snake g))"
    and "\<not> outside (cfg g) (last (body (snake g)))"
    and "food g \<notin> set (body (snake g))"
    and "lifecycle g = Running"
  shows "\<exists>g'. step g = Some (Next, g') \<and>
     collidesWithSelf (snake g') = Some False \<and>
     lifecycle g' = Running \<and>
     body (snake g') = last (body (snake g)) # butlast (body (snake g))"
proof -
  from assms(1) obtain t where ht: "body (snake g) = h # t"
    by (cases "body (snake g)") (auto simp: head_def)
  let ?nh = "last (h # t)"
  let ?sn = "(snake g)\<lparr>body := ?nh # butlast (h # t), growNext := False\<rparr>"
  have free: "?nh \<notin> set (butlast (h # t))"
    using assms(4) ht last_notin_butlast [of "h # t"] by simp
  have nofood: "?nh \<noteq> food g"
    using assms(6) ht last_in_set [of "h # t"] by auto
  have "step g = Some (Next, g\<lparr>snake := ?sn\<rparr>)"
    using ht assms(2,3,5) free nofood by (simp add: step_Cons Let_def del: butlast.simps last.simps)
  moreover have "collidesWithSelf ?sn = Some False"
    using free by (simp add: collidesWithSelf_def head_def del: butlast.simps last.simps)
  moreover have "lifecycle (g\<lparr>snake := ?sn\<rparr>) = Running"
    using assms(7) by (simp add: lifecycle_def split: if_splits)
  ultimately show ?thesis
    using ht by (simp del: butlast.simps last.simps)
qed

theorem C10_head_onto_tail_witness:
  "run [([], 120000), ([], 120000), ([], 120000), ([KeyPressed Up], 120000),
        ([KeyPressed Left], 120000), ([], 120000)] (session0 [] (17, 12)) = Some coil \<and>
   pollEvents [KeyPressed Down] coil = Some coil_down \<and>
   head (snake coil_down) = Some (16, 11) \<and> \<not> growNext (snake coil_down) \<and>
   vadd (16, 11) (dir (snake coil_down)) = last (body (snake coil_down)) \<and>
   distinct (body (snake coil_down)) \<and>
   \<not> outside (cfg coil_down) (last (body (snake coil_down))) \<and>
   food coil_down \<notin> set (body (snake coil_down)) \<and>
   lifecycle coil_down = Running \<and>
   (\<exists>g'. step coil_down = Some (Next, g') \<and> collidesWithSelf (snake g') = Some False \<and>
      lifecycle g' = Running \<and>
      body (snake g') = [(16, 12), (16, 11), (17, 11), (18, 11), (18, 12), (17, 12)])"
proof -
  have hyps: "head (snake coil_down) = Some (16, 11)" "\<not> growNext (snake coil_down)"
    "vadd (16, 11) (dir (snake coil_down)) = last (body (snake coil_down))"
    "distinct (body (snake coil_down))"
    "\<not> outside (cfg coil_down) (last (body (snake coil_down)))"
    "food coil_down \<notin> set (body (snake coil_down))"
    "lifecycle coil_down = Running"
    by (simp_all add: game_eval coil_def coil_down_def lifecycle_def)
  have "last (body (snake coil_down)) # butlast (body (snake coil_down)) =
      [(16, 12), (16, 11), (17, 11), (18, 11), (18, 12), (17, 12)]"
    by (simp add: coil_def coil_down_def)
  with hyps C10_head_onto_tail [OF hyps] run_coil keys_coil show ?thesis
    by simp
qed

subsection \<open>Eating\<close>

lemma sample_cong: "rng g' = rng g \<Longrightarrow> cfg g' = cfg g \<Longrightarrow> sample g' k = sample g k"
  by (simp add: sample_def)

lemma move_length:
  "move s = Some s' \<Longrightarrow>
   length (body s') = length (body s) + (if growNext s then 1 else 0) \<and> body s' \<noteq> [] \<and>
   dir s' = dir s \<and> \<not> growNext s'"
  by (cases "body s") (auto simp: move_None move_Cons)

text \<open>
  C5 as amended. Let the move put the head, inside the grid and off the rest of the
  body, on the food, and let some attempt \<open>k\<close> of the random source draw a cell off the
  body. Then the step returns and goes on to the next pass of the loop; the score is
  ten more; the body is what the move left, so the meal adds no segment on this step
  (the body is one longer than before only when a growth was pending from the step
  before); the growth flag is set, so that the move of the following step returns a
  body exactly one longer; and the food is on a cell off the new body, other than
  the one it was on.
\<close>

theorem C5_eating_step:
  assumes "move (snake g) = Some sn" and "head sn = Some nh"
    and "\<not> outside (cfg g) nh" and "collidesWithSelf sn = Some False" and "nh = food g"
    and "\<not> occupies sn (sample g k)"
  shows "\<exists>g'. step g = Some (Next, g') \<and>
     score g' = score g + 10 \<and>
     body (snake g') = body sn \<and>
     length (body sn) = length (body (snake g)) + (if growNext (snake g) then 1 else 0) \<and>
     growNext (snake g') \<and>
     (\<exists>s'. move (snake g') = Some s' \<and> length (body s') = length (body (snake g')) + 1) \<and>
     \<not> occupies (snake g') (food g') \<and>
     food g' \<noteq> food g"
proof -
  let ?g1 = "g\<lparr>snake := grow sn, score := score g + 10\<rparr>"
  have "\<not> occupies (snake ?g1) (sample ?g1 k)"
    using assms(6) sample_cong [of ?g1 g k] by (simp add: occupies_def grow_def)
  then obtain g2 where g2: "placeFood ?g1 = Some g2"
    using placeFood_returns by blast
  from placeFood_frame [OF this] obtain j where
    j: "g2 = ?g1\<lparr>rng := (\<lambda>n. rng ?g1 (2 * Suc j + n)), food := sample ?g1 j\<rparr>"
    and free: "\<not> occupies (snake ?g1) (sample ?g1 j)"
    by blast
  have stp: "step g = Some (Next, speedUp g2)"
    using assms(1-5) g2 by (simp add: step_def Let_def)
  have len: "length (body sn) = length (body (snake g)) + (if growNext (snake g) then 1 else 0)"
    and ne: "body sn \<noteq> []"
    using move_length [OF assms(1)] by simp_all
  have snk: "snake (speedUp g2) = grow sn" and sc: "score (speedUp g2) = score g + 10"
    and fd: "food (speedUp g2) = sample ?g1 j"
    using j by (simp_all add: speedUp_def)
  have nxt: "\<exists>s'. move (grow sn) = Some s' \<and> length (body s') = length (body (grow sn)) + 1"
    using ne by (cases "body sn") (simp_all add: move_Cons grow_def)
  have off: "\<not> occupies (grow sn) (sample ?g1 j)"
    using free by simp
  have "nh \<in> set (body sn)"
    using assms(2) by (auto simp: head_def split: list.splits)
  with off assms(5) have moved: "sample ?g1 j \<noteq> food g"
    by (auto simp: occupies_def grow_def)
  from stp len snk sc fd nxt off moved show ?thesis
    by (simp add: grow_def)
qed

theorem C5_eating_step_witness:
  "move (snake (session0 [] (17, 12))) =
     Some \<lparr>body = [(17, 12), (16, 12), (15, 12), (14, 12), (13, 12)], dir = (1, 0), growNext = False\<rparr> \<and>
   \<not> outside (cfg (session0 [] (17, 12))) (17, 12) \<and>
   (17, 12) = food (session0 [] (17, 12)) \<and>
   sample (session0 [] (17, 12)) 0 = (0, 0) \<and>
   (\<exists>g'. step (session0 [] (17, 12)) = Some (Next, g') \<and>
      score g' = 10 \<and> length (body (snake g')) = 5 \<and> growNext (snake g') \<and>
      (\<exists>s'. move (snake g') = Some s' \<and> length (body s') = 6) \<and>
      \<not> occupies (snake g') (food g') \<and> food g' \<noteq> (17, 12))"
proof -
  let ?g = "session0 [] (17, 12)"
  let ?sn = "\<lparr>body = [(17, 12), (16, 12), (15, 12), (14, 12), (13, 12)], dir = (1, 0), growNext = False\<rparr>"
  have smp: "sample ?g 0 = (0, 0)"
    by (simp add: sample_def nextInt_def session0_def)
  have free: "\<not> occupies ?sn (sample ?g 0)"
    by (simp add: smp occupies_def)
  have "move (snake ?g) = Some ?sn" "head ?sn = Some (17, 12)"
    "\<not> outside (cfg ?g) (17, 12)" "collidesWithSelf ?sn = Some False" "(17, 12) = food ?g"
    by (simp_all add: game_eval)
  note hyps = this free
  from C5_eating_step [OF hyps] obtain g' s' where
    g': "step ?g = Some (Next, g')" "score g' = score ?g + 10" "body (snake g') = body ?sn"
    "growNext (snake g')" "\<not> occupies (snake g') (food g')" "food g' \<noteq> food ?g"
    and s': "move (snake g') = Some s'" "length (body s') = length (body (snake g')) + 1"
    by blast
  from g'(3) s'(2) have "length (body s') = 6" "length (body (snake g')) = 5"
    by simp_all
  with g' s'(1) have "step ?g = Some (Next, g') \<and>
      score g' = 10 \<and> length (body (snake g')) = 5 \<and> growNext (snake g') \<and>
      (\<exists>s'. move (snake g') = Some s' \<and> length (body s') = 6) \<and>
      \<not> occupies (snake g') (food g') \<and> food g' \<noteq> (17, 12)"
    by (simp add: session0_def)
  with hyps smp show ?thesis
    by blast
qed

text \<open>
  C5 as stated fails when two meals follow each other: the food of the second lands
  right ahead of the head, the step that eats it has the growth of the first meal
  pending, and the body goes from five segments to six on an eating step.
\<close>

theorem C5_counterexample:
  "main_init (draws [17, 12, 18, 12]) 0 = Some (session0 [18, 12] (17, 12)) \<and>
   step (session0 [18, 12] (17, 12)) = Some (Next, fed (18, 12)) \<and>
   step (fed (18, 12)) = Some (Next, fed_twice) \<and>
   head (snake fed_twice) = Some (food (fed (18, 12))) \<and>
   score fed_twice = score (fed (18, 12)) + 10 \<and>
   length (body (snake (fed (18, 12)))) = 5 \<and>
   length (body (snake fed_twice)) = 6"
proof -
  have init: "main_init (draws [17, 12, 18, 12]) 0 = Some (session0 [18, 12] (17, 12))"
    using main_init_draws [of 17 12 "[18, 12]" 0] by (simp add: Snake_new_5 session0_def)
  have eat1: "step (session0 [18, 12] (17, 12)) = Some (Next, fed (18, 12))"
    by (simp add: game_eval fed_def placeFood_draws speedUp_def signed_modulo_int_def)
  have eat2: "step (fed (18, 12)) = Some (Next, fed_twice)"
    by (simp add: game_eval fed_def fed_twice_def placeFood_draws_Nil speedUp_def
        signed_modulo_int_def)
  have obs: "head (snake fed_twice) = Some (food (fed (18, 12)))"
    "score fed_twice = score (fed (18, 12)) + 10"
    "length (body (snake (fed (18, 12)))) = 5" "length (body (snake fed_twice)) = 6"
    by (simp_all add: game_eval fed_def fed_twice_def)
  from init eat1 eat2 obs show ?thesis by simp
qed

subsection \<open>Leaving the grid\<close>

lemma lifecycle_GameOver [simp]: "lifecycle g = GameOver \<longleftrightarrow> gameOver g"
  by (simp add: lifecycle_def)

lemma handleEvent_gameOver:
  assumes "gameOver g" and "ev \<noteq> KeyPressed R"
  shows "\<exists>g'. handleEvent ev g = Some g' \<and> gameOver g' \<and> snake g' = snake g \<and> acc g' = acc g"
proof (cases ev)
  case (KeyPressed k)
  with assms show ?thesis
    by (simp add: keyPressed_def Let_def)
qed (use assms in simp_all)

lemma pollEvents_gameOver:
  "gameOver g \<Longrightarrow> KeyPressed R \<notin> set evs \<Longrightarrow>
   \<exists>g'. pollEvents evs g = Some g' \<and> gameOver g' \<and> snake g' = snake g \<and> acc g' = acc g"
proof (induction evs arbitrary: g)
  case Nil
  then show ?case by simp
next
  case (Cons ev evs)
  from Cons.prems obtain g1 where g1: "handleEvent ev g = Some g1" "gameOver g1"
    "snake g1 = snake g" "acc g1 = acc g"
    using handleEvent_gameOver [of g ev] by auto
  from Cons.IH [of g1] Cons.prems g1 show ?case
    by auto
qed

lemma frame_gameOver:
  assumes "gameOver g" and "KeyPressed R \<notin> set evs"
  shows "\<exists>g'. frame evs d g = Some g' \<and> gameOver g' \<and> snake g' = snake g \<and> acc g' = acc g"
proof -
  from pollEvents_gameOver [OF assms] obtain g1 where
    "pollEvents evs g = Some g1" "gameOver g1" "snake g1 = snake g" "acc g1 = acc g"
    by blast
  then show ?thesis
    by (simp add: frame_def update_def)
qed

lemma run_gameOver:
  "gameOver g \<Longrightarrow> KeyPressed R \<notin> set (concat (map fst fs)) \<Longrightarrow>
   \<exists>g'. run fs g = Some g' \<and> gameOver g' \<and> snake g' = snake g \<and> acc g' = acc g"
proof (induction fs arbitrary: g)
  case Nil
  then show ?case by simp
next
  case (Cons f fs)
  show ?case
  proof (cases "isOpen g")
    case False
    with Cons.prems show ?thesis by simp
  next
    case True
    from Cons.prems obtain g1 where g1: "frame (fst f) (snd f) g = Some g1" "gameOver g1"
      "snake g1 = snake g" "acc g1 = acc g"
      using frame_gameOver [of g "fst f" "snd f"] by auto
    from Cons.IH [of g1] Cons.prems g1 True show ?thesis
      by auto
  qed
qed

text \<open>
  C6. Let the head plus the direction lie outside the grid. Then the step moves the
  snake, sets \<open>gameOver\<close> and breaks out of the loop, which returns at once. From the
  session it leaves, any frames in which key R is not pressed run to a session that
  is still game over and has the same snake, whatever the other keys and the times.
\<close>

theorem C6_outside_ends_game:
  assumes "head (snake g) = Some h" and "outside (cfg g) (vadd h (dir (snake g)))"
  shows "\<exists>g'. step g = Some (Break, g') \<and>
     head (snake g') = Some (vadd h (dir (snake g))) \<and>
     lifecycle g' = GameOver \<and>
     (\<forall>g0. moveInterval (cfg g0) \<le> acc g0 \<and>
           g0\<lparr>acc := f32 (acc g0 - moveInterval (cfg g0))\<rparr> = g \<longrightarrow> moveLoop g0 = Some g') \<and>
     (\<forall>fs. KeyPressed R \<notin> set (concat (map fst fs)) \<longrightarrow>
        (\<exists>g''. run fs g' = Some g'' \<and> lifecycle g'' = GameOver \<and> snake g'' = snake g'))"
proof -
  from assms(1) obtain t where ht: "body (snake g) = h # t"
    by (cases "body (snake g)") (auto simp: head_def)
  define sn where "sn = (snake g)\<lparr>body := vadd h (dir (snake g)) #
      (if growNext (snake g) then h # t else butlast (h # t)), growNext := False\<rparr>"
  define g' where "g' = g\<lparr>snake := sn, gameOver := True\<rparr>"
  have stp: "step g = Some (Break, g')"
    using ht assms(2) by (simp add: step_Cons Let_def g'_def sn_def del: butlast.simps)
  have hd: "head (snake g') = Some (vadd h (dir (snake g)))"
    by (simp add: head_def g'_def sn_def)
  have over: "gameOver g'"
    by (simp add: g'_def)
  have loop: "\<forall>g0. moveInterval (cfg g0) \<le> acc g0 \<and>
           g0\<lparr>acc := f32 (acc g0 - moveInterval (cfg g0))\<rparr> = g \<longrightarrow> moveLoop g0 = Some g'"
  proof (intro allI impI)
    fix g0
    assume "moveInterval (cfg g0) \<le> acc g0 \<and> g0\<lparr>acc := f32 (acc g0 - moveInterval (cfg g0))\<rparr> = g"
    with stp show "moveLoop g0 = Some g'"
      by (subst moveLoop.simps) simp
  qed
  have rest: "\<forall>fs. KeyPressed R \<notin> set (concat (map fst fs)) \<longrightarrow>
        (\<exists>g''. run fs g' = Some g'' \<and> lifecycle g'' = GameOver \<and> snake g'' = snake g')"
  proof (intro allI impI)
    fix fs :: "(Event list \<times> int) list"
    assume "KeyPressed R \<notin> set (concat (map fst fs))"
    from run_gameOver [OF over this]
    show "\<exists>g''. run fs g' = Some g'' \<and> lifecycle g'' = GameOver \<and> snake g'' = snake g'"
      by auto
  qed
  from stp hd over loop rest show ?thesis
    by (intro exI [of _ g']) simp
qed

lemma run_at_wall:
  "run (replicate 16 ([], 120000)) (session0 [] (0, 0)) = Some at_wall"
proof -
  have "replicate 16 ([] :: Event list, 120000 :: int) =
      [([], 120000), ([], 120000), ([], 120000), ([], 120000), ([], 120000), ([], 120000),
       ([], 120000), ([], 120000), ([], 120000), ([], 120000), ([], 120000), ([], 120000),
       ([], 120000), ([], 120000), ([], 120000), ([], 120000)]"
    by (simp add: eval_nat_numeral)
  then show ?thesis
    by (simp add: at_wall_def frame_eval)
qed

theorem C6_outside_ends_game_witness:
  "run (replicate 16 ([], 120000)) (session0 [] (0, 0)) = Some at_wall \<and>
   head (snake at_wall) = Some (31, 12) \<and>
   outside (cfg at_wall) (vadd (31, 12) (dir (snake at_wall))) \<and>
   (\<exists>g'. step at_wall = Some (Break, g') \<and> head (snake g') = Some (32, 12) \<and>
      lifecycle g' = GameOver \<and>
      (\<exists>g''. run [([KeyPressed Left, KeyPressed P], 8000), ([], 8000)] g' = Some g'' \<and>
         lifecycle g'' = GameOver \<and> snake g'' = snake g'))"
proof -
  have hyps: "head (snake at_wall) = Some (31, 12)"
    "outside (cfg at_wall) (vadd (31, 12) (dir (snake at_wall)))"
    by (simp_all add: at_wall_def game_eval)
  have dest: "vadd (31, 12) (dir (snake at_wall)) = (32, 12)"
    by (simp add: at_wall_def game_eval)
  have keys: "KeyPressed R \<notin> set (concat (map fst [([KeyPressed Left, KeyPressed P], 8000 :: int), ([], 8000)]))"
    by simp
  from C6_outside_ends_game [OF hyps] keys dest hyps run_at_wall show ?thesis
    by (metis (no_types, lifting))
qed

subsection \<open>The body in reachable sessions\<close>

lemma Snake_new_distinct: "distinct (body (Snake_new p n))"
  by (auto simp: Snake_new_def distinct_map intro!: inj_onI)

lemma Snake_new_nonempty: "body (Snake_new p 5) \<noteq> []"
  by (cases p) (simp add: Snake_new_5)

lemma placeFood_keeps:
  assumes "placeFood g = Some g'"
  shows "snake g' = snake g \<and> cfg g' = cfg g \<and> score g' = score g \<and> paused g' = paused g \<and>
     gameOver g' = gameOver g \<and> acc g' = acc g \<and> moveClock g' = moveClock g \<and>
     isOpen g' = isOpen g \<and> startPos g' = startPos g"
  using placeFood_frame [OF assms] by auto

lemma main_init_body:
  assumes "main_init r t0 = Some g"
  shows "body (snake g) \<noteq> [] \<and> distinct (body (snake g)) \<and> \<not> gameOver g"
  using assms placeFood_keeps [of _ g]
  by (auto simp: main_init_def Let_def Snake_new_distinct Snake_new_nonempty)

lemma restart_body:
  assumes "restart g = Some g'"
  shows "body (snake g') \<noteq> [] \<and> distinct (body (snake g')) \<and> \<not> gameOver g' \<and> \<not> paused g'"
proof -
  from assms obtain g1 where g1: "placeFood (g\<lparr>snake := Snake_new (startPos g) 5\<rparr>) = Some g1"
    and g': "g' = g1\<lparr>score := 0, paused := False, gameOver := False, moveClock := 0\<rparr>"
    by (auto simp: restart_def split: option.splits)
  from placeFood_keeps [OF g1] g' show ?thesis
    by (simp add: Snake_new_distinct Snake_new_nonempty)
qed

lemma setDirection_body: "body (setDirection d s) = body s"
  by (simp add: setDirection_def)

lemma steer_body: "body (steer k s) = body s"
  by (simp add: steer_def Let_def setDirection_body)

lemma keyPressed_body:
  assumes "keyPressed k g = Some g'" and "body (snake g) \<noteq> []"
    and "gameOver g \<or> distinct (body (snake g))"
  shows "body (snake g') \<noteq> [] \<and> (gameOver g' \<or> distinct (body (snake g')))"
proof (cases "k = R")
  case True
  with assms(1) obtain g3 where g3: "restart g = Some g3"
    and g': "g' = (if gameOver g3 then g3 else g3\<lparr>snake := steer R (snake g3)\<rparr>)"
    by (auto simp: keyPressed_def Let_def split: option.splits)
  from restart_body [OF g3] g' show ?thesis
    by (simp add: steer_body)
next
  case False
  with assms show ?thesis
    by (auto simp: keyPressed_def Let_def steer_body split: if_splits)
qed

lemma handleEvent_body:
  assumes "handleEvent ev g = Some g'" and "body (snake g) \<noteq> []"
    and "gameOver g \<or> distinct (body (snake g))"
  shows "body (snake g') \<noteq> [] \<and> (gameOver g' \<or> distinct (body (snake g')))"
proof (cases ev)
  case (KeyPressed k)
  with assms keyPressed_body [of k g g'] show ?thesis by simp
qed (use assms in auto)

lemma pollEvents_body:
  "pollEvents evs g = Some g' \<Longrightarrow> body (snake g) \<noteq> [] \<Longrightarrow>
   gameOver g \<or> distinct (body (snake g)) \<Longrightarrow>
   body (snake g') \<noteq> [] \<and> (gameOver g' \<or> distinct (body (snake g')))"
proof (induction evs arbitrary: g)
  case Nil
  then show ?case by simp
next
  case (Cons ev evs)
  from Cons.prems(1) obtain g1 where g1: "handleEvent ev g = Some g1" "pollEvents evs g1 = Some g'"
    by (auto split: option.splits)
  from handleEvent_body [OF g1(1) Cons.prems(2,3)] Cons.IH [OF g1(2)] show ?case
    by simp
qed

lemma speedUp_keeps:
  "snake (speedUp g) = snake g \<and> gameOver (speedUp g) = gameOver g \<and>
   paused (speedUp g) = paused g \<and> acc (speedUp g) = acc g \<and> score (speedUp g) = score g \<and>
   food (speedUp g) = food g"
  by (simp add: speedUp_def)

lemma step_body:
  assumes "step g = Some (fl, g')" and "distinct (body (snake g))"
  shows "body (snake g') \<noteq> [] \<and>
     (if fl = Break then gameOver g' else distinct (body (snake g')) \<and> gameOver g' = gameOver g)"
proof -
  from assms(1) obtain h t where ht: "body (snake g) = h # t"
    by (cases "body (snake g)") (auto simp: step_None)
  define rest where "rest = (if growNext (snake g) then h # t else butlast (h # t))"
  have rest: "distinct rest"
    using assms(2) ht distinct_butlast [of "h # t"] by (simp add: rest_def del: butlast.simps)
  define nh where "nh = vadd h (dir (snake g))"
  define sn where "sn = (snake g)\<lparr>body := nh # rest, growNext := False\<rparr>"
  note stp = assms(1) [unfolded step_Cons [OF ht] Let_def, folded rest_def nh_def, folded sn_def]
  show ?thesis
  proof (cases "outside (cfg g) nh \<or> nh \<in> set rest")
    case True
    with stp show ?thesis by (auto simp: sn_def)
  next
    case False
    show ?thesis
    proof (cases "nh = food g")
      case True
      with stp False obtain g2 where
        g2: "placeFood (g\<lparr>snake := grow sn, score := score g + 10\<rparr>) = Some g2"
        and r: "fl = Next" "g' = speedUp g2"
        by (auto split: option.splits)
      from placeFood_keeps [OF g2] r False rest show ?thesis
        by (simp add: speedUp_keeps grow_def sn_def)
    next
      case nofood: False
      with stp False rest show ?thesis by (auto simp: sn_def)
    qed
  qed
qed

lemma moveLoop_body:
  assumes "moveLoop g = Some g'"
  shows "\<not> gameOver g \<longrightarrow> distinct (body (snake g)) \<longrightarrow> body (snake g) \<noteq> [] \<longrightarrow>
     body (snake g') \<noteq> [] \<and> (gameOver g' \<or> distinct (body (snake g')))"
  using assms
proof (induction g g' rule: moveLoop.raw_induct [rotated, consumes 1])
  case (1 loop g g')
  show ?case
  proof (cases "moveInterval (cfg g) \<le> acc g")
    case False
    with 1(2) show ?thesis by auto
  next
    case True
    let ?g1 = "g\<lparr>acc := f32 (acc g - moveInterval (cfg g))\<rparr>"
    from True 1(2) obtain fl g2 where stp: "step ?g1 = Some (fl, g2)"
      and r: "if fl = Break then g' = g2 else loop g2 = Some g'"
      by (auto split: option.splits if_splits)
    show ?thesis
    proof (intro impI)
      assume run: "\<not> gameOver g" and d: "distinct (body (snake g))"
      from step_body [OF stp] d have
        b: "body (snake g2) \<noteq> []"
        and f: "if fl = Break then gameOver g2 else distinct (body (snake g2)) \<and> gameOver g2 = gameOver ?g1"
        by simp_all
      show "body (snake g') \<noteq> [] \<and> (gameOver g' \<or> distinct (body (snake g')))"
      proof (cases "fl = Break")
        case True
        with r b f show ?thesis by simp
      next
        case False
        with r have "loop g2 = Some g'" by simp
        from 1(1) [OF this] False f b run show ?thesis by simp
      qed
    qed
  qed
qed

lemma update_body:
  assumes "update g = Some g'" and "body (snake g) \<noteq> []"
    and "gameOver g \<or> distinct (body (snake g))"
  shows "body (snake g') \<noteq> [] \<and> (gameOver g' \<or> distinct (body (snake g')))"
proof (cases "\<not> paused g \<and> \<not> gameOver g")
  case True
  with assms(1) have "moveLoop (g\<lparr>moveClock := 0, acc := f32 (acc g + asSeconds (moveClock g))\<rparr>) = Some g'"
    by (simp add: update_def Let_def)
  from moveLoop_body [OF this] True assms(2,3) show ?thesis by simp
next
  case False
  with assms show ?thesis by (auto simp: update_def)
qed

lemma frame_body:
  assumes "frame evs d g = Some g'" and "body (snake g) \<noteq> []"
    and "gameOver g \<or> distinct (body (snake g))"
  shows "body (snake g') \<noteq> [] \<and> (gameOver g' \<or> distinct (body (snake g')))"
proof -
  from assms(1) obtain g1 g2 where g1: "pollEvents evs g = Some g1" and g2: "update g1 = Some g2"
    and g': "g' = g2\<lparr>moveClock := moveClock g2 + d\<rparr>"
    by (auto simp: frame_def split: option.splits)
  from pollEvents_body [OF g1 assms(2,3)] have "body (snake g1) \<noteq> []"
    "gameOver g1 \<or> distinct (body (snake g1))" by simp_all
  from update_body [OF g2 this] g' show ?thesis by simp
qed

lemma reachable_body:
  "reachable g \<Longrightarrow> body (snake g) \<noteq> [] \<and> (gameOver g \<or> distinct (body (snake g)))"
proof (induction rule: reachable.induct)
  case (reachable_init r t0 g)
  with main_init_body [of r t0 g] show ?case by simp
next
  case (reachable_frame g d evs g')
  with frame_body [of evs d g g'] show ?case by simp
qed

text \<open>
  C7. In every session reachable from the initialisation by frames, the body has at
  least one segment, and unless the session is game over no cell occurs twice in it.
\<close>

theorem C7_body_distinct:
  assumes "reachable g"
  shows "1 \<le> length (body (snake g)) \<and>
     (lifecycle g \<noteq> GameOver \<longrightarrow> distinct (body (snake g)))"
  using reachable_body [OF assms]
  by (cases "body (snake g)") auto

subsection \<open>Evaluating frames\<close>

lemma frame_stall: "frame [] 1000000 (session0 [] (0, 0)) = Some stalled"
  by (simp add: frame_def update_def asSeconds_def moveLoop.simps stalled_def session0_def
      GameConfig_default_def f32_eval)

lemma frame_crash: "frame [KeyPressed Up, KeyPressed Left] 0 stalled = Some crashed"
  by (simp add: frame_def update_def asSeconds_def moveLoop.simps stalled_def crashed_def
      game_eval f32_eval)

lemma reachable_session0: "reachable (session0 [] (0, 0))"
  using main_init_session0 by (rule reachable_init) simp

lemma reachable_stalled: "reachable stalled"
  using reachable_session0 _ _ frame_stall by (rule reachable_frame) (simp_all add: session0_def)

lemma reachable_crashed: "reachable crashed"
  using reachable_stalled _ _ frame_crash
  by (rule reachable_frame) (simp_all add: stalled_def session0_def)

theorem C7_body_distinct_witness:
  "reachable (session0 [] (0, 0)) \<and>
   lifecycle (session0 [] (0, 0)) \<noteq> GameOver \<and>
   1 \<le> length (body (snake (session0 [] (0, 0)))) \<and>
   distinct (body (snake (session0 [] (0, 0)))) \<and>
   reachable crashed \<and> lifecycle crashed = GameOver \<and>
   1 \<le> length (body (snake crashed)) \<and>
   \<not> distinct (body (snake crashed))"
proof -
  have "lifecycle (session0 [] (0, 0)) \<noteq> GameOver" "lifecycle crashed = GameOver"
    "\<not> distinct (body (snake crashed))"
    by (simp_all add: session0_def crashed_def)
  with C7_body_distinct [OF reachable_session0] C7_body_distinct [OF reachable_crashed]
    reachable_session0 reachable_crashed
  show ?thesis by simp
qed

subsection \<open>The food and the grid in reachable sessions\<close>

text \<open>
  With \<open>reachable_body\<close>, the lemmas of this subsection show that the hypotheses of the
  theorems on single steps hold wherever the loop takes a step: in every reachable
  session that is not game over the body has no repetition and lies on the grid, and
  the food is on a free cell of the grid. Keys and steps that go on keep it so.
\<close>

lemma sample_inside:
  "0 < cols (cfg g) \<Longrightarrow> 0 < rows (cfg g) \<Longrightarrow> \<not> outside (cfg g) (sample g k)"
  by (simp add: sample_def nextInt_def outside_def not_less not_le)

lemma placeFood_tidy:
  assumes "placeFood g = Some g'" and "cols (cfg g) = 32" and "rows (cfg g) = 24"
    and "startPos g = (16, 12)"
    and "gameOver g \<or> list_all (\<lambda>p. \<not> outside (cfg g) p) (body (snake g))"
  shows "tidy g'"
proof -
  from placeFood_frame [OF assms(1)] obtain k where
    "g' = g\<lparr>rng := (\<lambda>n. rng g (2 * Suc k + n)), food := sample g k\<rparr>"
    "\<not> occupies (snake g) (sample g k)"
    by blast
  with sample_inside [of g k] assms(2-5) show ?thesis
    by (auto simp: tidy_def occupies_def)
qed

lemma Snake_new_inside:
  "list_all (\<lambda>p. \<not> outside c p) (body (Snake_new (16, 12) 5))" if "cols c = 32" "rows c = 24"
  using that by (simp add: Snake_new_5 outside_def)

lemma main_init_tidy: "main_init r t0 = Some g \<Longrightarrow> tidy g"
  by (rule placeFood_tidy [where g = "\<lparr>cfg = GameConfig_default, startPos = (16, 12),
        snake = Snake_new (16, 12) 5, rng = r, food = (0, 0), score = 0, paused = False,
        gameOver = False, moveClock = t0, acc = 0, isOpen = True\<rparr>"])
    (simp_all add: main_init_def Let_def GameConfig_default_def signed_divide_int_def
      Snake_new_5 outside_def)

lemma restart_tidy:
  assumes "restart g = Some g'" and "tidy g"
  shows "tidy g'"
proof -
  let ?g0 = "g\<lparr>snake := Snake_new (startPos g) 5\<rparr>"
  from assms(1) obtain g1 where g1: "placeFood ?g0 = Some g1"
    and g': "g' = g1\<lparr>score := 0, paused := False, gameOver := False, moveClock := 0\<rparr>"
    by (auto simp: restart_def split: option.splits)
  from assms(2) have "tidy g1"
    by (intro placeFood_tidy [OF g1]) (simp_all add: tidy_def Snake_new_inside)
  moreover from placeFood_keeps [OF g1] assms(2)
  have "list_all (\<lambda>p. \<not> outside (cfg g1) p) (body (snake g1))"
    by (simp add: tidy_def Snake_new_inside)
  ultimately show ?thesis
    using g' by (simp add: tidy_def)
qed

lemma keyPressed_tidy:
  assumes "keyPressed k g = Some g'" and "tidy g"
  shows "tidy g'"
proof (cases "k = R")
  case True
  with assms(1) obtain g3 where g3: "restart g = Some g3"
    and g': "g' = (if gameOver g3 then g3 else g3\<lparr>snake := steer R (snake g3)\<rparr>)"
    by (auto simp: keyPressed_def Let_def split: option.splits)
  from restart_tidy [OF g3 assms(2)] g' show ?thesis
    by (auto simp: tidy_def steer_body)
next
  case False
  with assms show ?thesis
    by (auto simp: keyPressed_def Let_def tidy_def steer_body split: if_splits)
qed

lemma handleEvent_tidy:
  assumes "handleEvent ev g = Some g'" and "tidy g"
  shows "tidy g'"
proof (cases ev)
  case (KeyPressed k)
  with assms keyPressed_tidy [of k g g'] show ?thesis by simp
qed (use assms in \<open>auto simp: tidy_def\<close>)

lemma pollEvents_tidy: "pollEvents evs g = Some g' \<Longrightarrow> tidy g \<Longrightarrow> tidy g'"
proof (induction evs arbitrary: g)
  case Nil
  then show ?case by simp
next
  case (Cons ev evs)
  from Cons.prems(1) obtain g1 where g1: "handleEvent ev g = Some g1" "pollEvents evs g1 = Some g'"
    by (auto split: option.splits)
  from Cons.IH [OF g1(2) handleEvent_tidy [OF g1(1) Cons.prems(2)]] show ?case .
qed

lemma set_butlast_subset: "set (butlast xs) \<subseteq> set xs"
  by (simp add: in_set_butlastD subsetI)

lemma step_tidy:
  assumes "step g = Some (fl, g')" and "tidy g" and "\<not> gameOver g"
  shows "tidy g'"
proof -
  from assms(1) obtain h t where ht: "body (snake g) = h # t"
    by (cases "body (snake g)") (auto simp: step_None)
  define rest where "rest = (if growNext (snake g) then h # t else butlast (h # t))"
  have sub: "set rest \<subseteq> set (h # t)"
    using set_butlast_subset [of "h # t"] by (simp add: rest_def del: butlast.simps)
  define nh where "nh = vadd h (dir (snake g))"
  define sn where "sn = (snake g)\<lparr>body := nh # rest, growNext := False\<rparr>"
  note stp = assms(1) [unfolded step_Cons [OF ht] Let_def, folded rest_def nh_def, folded sn_def]
  from assms(2,3) ht have grid: "cols (cfg g) = 32" "rows (cfg g) = 24" "startPos g = (16, 12)"
    and fd: "food g \<notin> set (h # t)" "\<not> outside (cfg g) (food g)"
    and ins: "\<forall>p \<in> set (h # t). \<not> outside (cfg g) p"
    by (simp_all add: tidy_def list_all_iff)
  from fd(1) sub have frest: "food g \<notin> set rest" by blast
  from ins sub have irest: "\<forall>p \<in> set rest. \<not> outside (cfg g) p" by blast
  show ?thesis
  proof (cases "outside (cfg g) nh \<or> nh \<in> set rest")
    case True
    with stp have g': "g' = g\<lparr>snake := sn, gameOver := True\<rparr>" by auto
    from True fd frest have "nh \<noteq> food g" by auto
    with g' grid fd frest show ?thesis by (simp add: tidy_def sn_def)
  next
    case False
    show ?thesis
    proof (cases "nh = food g")
      case True
      with stp False obtain g2 where
        g2: "placeFood (g\<lparr>snake := grow sn, score := score g + 10\<rparr>) = Some g2"
        and r: "g' = speedUp g2"
        by (auto split: option.splits)
      from False irest have "list_all (\<lambda>p. \<not> outside (cfg g) p) (body (grow sn))"
        by (simp add: grow_def sn_def list_all_iff)
      with grid have "tidy g2"
        by (intro placeFood_tidy [OF g2]) simp_all
      with r show ?thesis
        by (auto simp: tidy_def speedUp_def outside_def)
    next
      case nofood: False
      with stp False have g': "g' = g\<lparr>snake := sn\<rparr>" by auto
      with False nofood grid fd frest irest show ?thesis
        by (simp add: tidy_def sn_def list_all_iff)
    qed
  qed
qed

lemma moveLoop_tidy:
  assumes "moveLoop g = Some g'"
  shows "tidy g \<longrightarrow> \<not> gameOver g \<longrightarrow> tidy g'"
  using assms
proof (induction g g' rule: moveLoop.raw_induct [rotated, consumes 1])
  case (1 loop g g')
  show ?case
  proof (cases "moveInterval (cfg g) \<le> acc g")
    case False
    with 1(2) show ?thesis by auto
  next
    case True
    let ?g1 = "g\<lparr>acc := f32 (acc g - moveInterval (cfg g))\<rparr>"
    from True 1(2) obtain fl g2 where stp: "step ?g1 = Some (fl, g2)"
      and r: "if fl = Break then g' = g2 else loop g2 = Some g'"
      by (auto split: option.splits if_splits)
    show ?thesis
    proof (intro impI)
      assume t: "tidy g" and run: "\<not> gameOver g"
      then have "tidy ?g1" "\<not> gameOver ?g1"
        by (simp_all add: tidy_def)
      from step_tidy [OF stp this] have t2: "tidy g2" .
      show "tidy g'"
      proof (cases "fl = Break")
        case True
        with r t2 show ?thesis by simp
      next
        case False
        with r have lp: "loop g2 = Some g'" by simp
        have "\<not> gameOver g2"
        proof -
          from stp obtain h t where ht: "body (snake ?g1) = h # t"
            by (cases "body (snake ?g1)") (auto simp: step_None)
          from stp False run show ?thesis
            unfolding step_Cons [OF ht] Let_def
            using placeFood_keeps speedUp_keeps
            by (auto split: if_splits option.splits)
        qed
        with 1(1) [OF lp] t2 show ?thesis by simp
      qed
    qed
  qed
qed

lemma frame_tidy:
  assumes "frame evs d g = Some g'" and "tidy g"
  shows "tidy g'"
proof -
  from assms(1) obtain g1 g2 where g1: "pollEvents evs g = Some g1" and g2: "update g1 = Some g2"
    and g': "g' = g2\<lparr>moveClock := moveClock g2 + d\<rparr>"
    by (auto simp: frame_def split: option.splits)
  from pollEvents_tidy [OF g1 assms(2)] have t1: "tidy g1" .
  have "tidy g2"
  proof (cases "\<not> paused g1 \<and> \<not> gameOver g1")
    case True
    with g2 have "moveLoop (g1\<lparr>moveClock := 0, acc := f32 (acc g1 + asSeconds (moveClock g1))\<rparr>) = Some g2"
      by (simp add: update_def Let_def)
    from moveLoop_tidy [OF this] t1 True show ?thesis by (simp add: tidy_def)
  next
    case False
    with g2 t1 show ?thesis by (auto simp: update_def tidy_def)
  qed
  with g' show ?thesis by (simp add: tidy_def)
qed

lemma reachable_tidy: "reachable g \<Longrightarrow> tidy g"
proof (induction rule: reachable.induct)
  case (reachable_init r t0 g)
  then show ?case by (simp add: main_init_tidy)
next
  case (reachable_frame g d evs g')
  with frame_tidy [of evs d g g'] show ?case by simp
qed

subsection \<open>Frames while paused or game over\<close>





lemma lifecycle_Running: "lifecycle g = Running \<longleftrightarrow> \<not> paused g \<and> \<not> gameOver g"
  by (simp add: lifecycle_def)

lemma frame_halted:
  assumes "pollEvents evs g = Some g1" and "lifecycle g1 \<noteq> Running"
  shows "frame evs d g = Some (g1\<lparr>moveClock := d\<rparr>)"
  using assms by (auto simp: frame_def update_def lifecycle_Running)

lemma f32_consts:
  "f32 (3 / 25) = 16106127 / 2 ^ 27" "f32 (23 / 25) = 15435039 / 2 ^ 24"
  "f32 (1 / 25) = 10737418 / 2 ^ 28"
  using f32_012 f32_092 f32_004 by simp_all

subsection \<open>The move interval\<close>

lemma speedUp_interval:
  "moveInterval (cfg (speedUp g)) =
     (if score g smod 50 = 0 \<and> f32 (4 / 100) < moveInterval (cfg g)
      then f32 (moveInterval (cfg g) * f32 (92 / 100)) else moveInterval (cfg g))"
  by (simp add: speedUp_def)

lemma step_interval:
  assumes "step g = Some (fl, g')"
  shows "moveInterval (cfg g') =
     (if score g' = score g + 10 \<and> score g' smod 50 = 0 \<and> f32 (4 / 100) < moveInterval (cfg g)
      then f32 (moveInterval (cfg g) * f32 (92 / 100)) else moveInterval (cfg g))"
proof -
  from assms obtain h t where ht: "body (snake g) = h # t"
    by (cases "body (snake g)") (auto simp: step_None)
  define rest where "rest = (if growNext (snake g) then h # t else butlast (h # t))"
  define nh where "nh = vadd h (dir (snake g))"
  define sn where "sn = (snake g)\<lparr>body := nh # rest, growNext := False\<rparr>"
  note stp = assms [unfolded step_Cons [OF ht] Let_def, folded rest_def nh_def, folded sn_def]
  show ?thesis
  proof (cases "outside (cfg g) nh \<or> nh \<in> set rest")
    case True
    with stp show ?thesis by auto
  next
    case False
    show ?thesis
    proof (cases "nh = food g")
      case True
      with stp False obtain g2 where
        g2: "placeFood (g\<lparr>snake := grow sn, score := score g + 10\<rparr>) = Some g2"
        and r: "g' = speedUp g2"
        by (auto split: option.splits)
      from placeFood_keeps [OF g2] r show ?thesis
        by (simp add: speedUp_interval speedUp_keeps)
    next
      case nofood: False
      with stp False show ?thesis by auto
    qed
  qed
qed

lemma moveLoop_floor:
  assumes "moveLoop g = Some g'"
  shows "moveInterval (cfg g) \<le> f32 (4 / 100) \<longrightarrow> moveInterval (cfg g') = moveInterval (cfg g)"
  using assms
proof (induction g g' rule: moveLoop.raw_induct [rotated, consumes 1])
  case (1 loop g g')
  show ?case
  proof (cases "moveInterval (cfg g) \<le> acc g")
    case False
    with 1(2) show ?thesis by auto
  next
    case True
    let ?g1 = "g\<lparr>acc := f32 (acc g - moveInterval (cfg g))\<rparr>"
    from True 1(2) obtain fl g2 where stp: "step ?g1 = Some (fl, g2)"
      and r: "if fl = Break then g' = g2 else loop g2 = Some g'"
      by (auto split: option.splits if_splits)
    show ?thesis
    proof
      assume low: "moveInterval (cfg g) \<le> f32 (4 / 100)"
      with step_interval [OF stp] have same: "moveInterval (cfg g2) = moveInterval (cfg g)"
        by simp
      show "moveInterval (cfg g') = moveInterval (cfg g)"
      proof (cases "fl = Break")
        case True
        with r same show ?thesis by simp
      next
        case False
        with r have "loop g2 = Some g'" by simp
        from 1(1) [OF this] same low show ?thesis by simp
      qed
    qed
  qed
qed

lemma restart_cfg: "restart g = Some g' \<Longrightarrow> cfg g' = cfg g"
  using placeFood_keeps [of "g\<lparr>snake := Snake_new (startPos g) 5\<rparr>"]
  by (auto simp: restart_def split: option.splits)

lemma keyPressed_cfg: "keyPressed k g = Some g' \<Longrightarrow> cfg g' = cfg g"
  using restart_cfg [of "if k = P then (if k = Escape then g\<lparr>isOpen := False\<rparr> else g)
      \<lparr>paused := \<not> paused (if k = Escape then g\<lparr>isOpen := False\<rparr> else g)\<rparr>
      else (if k = Escape then g\<lparr>isOpen := False\<rparr> else g)"]
  by (auto simp: keyPressed_def Let_def split: option.splits if_splits)

lemma handleEvent_cfg: "handleEvent ev g = Some g' \<Longrightarrow> cfg g' = cfg g"
  by (cases ev) (auto simp: keyPressed_cfg)

lemma pollEvents_cfg: "pollEvents evs g = Some g' \<Longrightarrow> cfg g' = cfg g"
proof (induction evs arbitrary: g)
  case Nil
  then show ?case by simp
next
  case (Cons ev evs)
  then obtain g1 where "handleEvent ev g = Some g1" "pollEvents evs g1 = Some g'"
    by (auto split: option.splits)
  with Cons.IH [of g1] handleEvent_cfg [of ev g g1] show ?case by simp
qed

lemma frame_floor:
  assumes "frame evs d g = Some g'" and "moveInterval (cfg g) \<le> f32 (4 / 100)"
  shows "moveInterval (cfg g') = moveInterval (cfg g)"
proof -
  from assms(1) obtain g1 g2 where g1: "pollEvents evs g = Some g1" and g2: "update g1 = Some g2"
    and g': "g' = g2\<lparr>moveClock := moveClock g2 + d\<rparr>"
    by (auto simp: frame_def split: option.splits)
  have "moveInterval (cfg g2) = moveInterval (cfg g1)"
  proof (cases "\<not> paused g1 \<and> \<not> gameOver g1")
    case True
    with g2 have "moveLoop (g1\<lparr>moveClock := 0, acc := f32 (acc g1 + asSeconds (moveClock g1))\<rparr>) = Some g2"
      by (simp add: update_def Let_def)
    from moveLoop_floor [OF this] assms(2) pollEvents_cfg [OF g1] show ?thesis by simp
  next
    case False
    with g2 show ?thesis by (auto simp: update_def)
  qed
  with g' pollEvents_cfg [OF g1] show ?thesis by simp
qed

lemma run_floor:
  "run fs g = Some g' \<Longrightarrow> moveInterval (cfg g) \<le> f32 (4 / 100) \<Longrightarrow>
   moveInterval (cfg g') = moveInterval (cfg g)"
proof (induction fs arbitrary: g)
  case Nil
  then show ?case by simp
next
  case (Cons f fs)
  show ?case
  proof (cases "isOpen g")
    case False
    with Cons.prems show ?thesis by simp
  next
    case True
    with Cons.prems(1) obtain g1 where g1: "frame (fst f) (snd f) g = Some g1"
      and rest: "run fs g1 = Some g'"
      by (auto split: option.splits)
    from frame_floor [OF g1 Cons.prems(2)] Cons.IH [OF rest] Cons.prems(2) show ?thesis
      by simp
  qed
qed

lemma f32_times_092:
  "f32 (64424508 / 2 ^ 29 * (15435039 / 2 ^ 24)) = 59270548 / 2 ^ 29"
  "f32 (59270548 / 2 ^ 29 * (15435039 / 2 ^ 24)) = 54528904 / 2 ^ 29"
  "f32 (54528904 / 2 ^ 29 * (15435039 / 2 ^ 24)) = 50166592 / 2 ^ 29"
  "f32 (50166592 / 2 ^ 29 * (15435039 / 2 ^ 24)) = 46153264 / 2 ^ 29"
  "f32 (46153264 / 2 ^ 29 * (15435039 / 2 ^ 24)) = 42461004 / 2 ^ 29"
  "f32 (42461004 / 2 ^ 29 * (15435039 / 2 ^ 24)) = 39064124 / 2 ^ 29"
  "f32 (39064124 / 2 ^ 29 * (15435039 / 2 ^ 24)) = 35938996 / 2 ^ 29"
  "f32 (35938996 / 2 ^ 29 * (15435039 / 2 ^ 24)) = 33063876 / 2 ^ 29"
  "f32 (33063876 / 2 ^ 29 * (15435039 / 2 ^ 24)) = 30418766 / 2 ^ 29"
  "f32 (30418766 / 2 ^ 29 * (15435039 / 2 ^ 24)) = 27985266 / 2 ^ 29"
  "f32 (27985266 / 2 ^ 29 * (15435039 / 2 ^ 24)) = 25746446 / 2 ^ 29"
  "f32 (25746446 / 2 ^ 29 * (15435039 / 2 ^ 24)) = 23686730 / 2 ^ 29"
  "f32 (23686730 / 2 ^ 29 * (15435039 / 2 ^ 24)) = 21791792 / 2 ^ 29"
  "f32 (21791792 / 2 ^ 29 * (15435039 / 2 ^ 24)) = 20048450 / 2 ^ 29"
  by (simp_all add: f32_eval)


lemma speedUp_levels:
  assumes "moveInterval (cfg g) \<in> set (map (\<lambda>n. n / 2 ^ 29) intervals)"
  shows "moveInterval (cfg (speedUp g)) \<in> set (map (\<lambda>n. n / 2 ^ 29) intervals)"
proof (cases "score g smod 50 = 0 \<and> f32 (4 / 100) < moveInterval (cfg g)")
  case False
  with assms show ?thesis by (auto simp add: speedUp_interval)
next
  case True
  then have "moveInterval (cfg (speedUp g)) = f32 (moveInterval (cfg g) * f32 (92 / 100))"
    by (simp only: speedUp_interval if_True simp_thms)
  then have up: "moveInterval (cfg (speedUp g)) = f32 (moveInterval (cfg g) * (15435039 / 2 ^ 24))"
    unfolding f32_092 .
  from True have "f32 (4 / 100) < moveInterval (cfg g)" ..
  then have hi: "10737418 / 2 ^ 28 < moveInterval (cfg g)"
    unfolding f32_004 .
  from assms consider
      "moveInterval (cfg g) = 64424508 / 2 ^ 29" | "moveInterval (cfg g) = 59270548 / 2 ^ 29"
    | "moveInterval (cfg g) = 54528904 / 2 ^ 29" | "moveInterval (cfg g) = 50166592 / 2 ^ 29"
    | "moveInterval (cfg g) = 46153264 / 2 ^ 29" | "moveInterval (cfg g) = 42461004 / 2 ^ 29"
    | "moveInterval (cfg g) = 39064124 / 2 ^ 29" | "moveInterval (cfg g) = 35938996 / 2 ^ 29"
    | "moveInterval (cfg g) = 33063876 / 2 ^ 29" | "moveInterval (cfg g) = 30418766 / 2 ^ 29"
    | "moveInterval (cfg g) = 27985266 / 2 ^ 29" | "moveInterval (cfg g) = 25746446 / 2 ^ 29"
    | "moveInterval (cfg g) = 23686730 / 2 ^ 29" | "moveInterval (cfg g) = 21791792 / 2 ^ 29"
    | "moveInterval (cfg g) = 20048450 / 2 ^ 29"
    unfolding intervals_def list.map set_simps insert_iff empty_iff by blast
  then show ?thesis
  proof cases
    case 15
    with hi show ?thesis by simp
  qed (simp_all only: up f32_times_092 intervals_def list.map set_simps insert_iff simp_thms)
qed


lemma step_levels:
  assumes "step g = Some (fl, g')"
    and "moveInterval (cfg g) \<in> set (map (\<lambda>n. n / 2 ^ 29) intervals)"
  shows "moveInterval (cfg g') \<in> set (map (\<lambda>n. n / 2 ^ 29) intervals)"
proof -
  from assms(1) obtain h t where ht: "body (snake g) = h # t"
    by (cases "body (snake g)") (auto simp: step_None)
  define rest where "rest = (if growNext (snake g) then h # t else butlast (h # t))"
  define nh where "nh = vadd h (dir (snake g))"
  define sn where "sn = (snake g)\<lparr>body := nh # rest, growNext := False\<rparr>"
  note stp = assms(1) [unfolded step_Cons [OF ht] Let_def, folded rest_def nh_def, folded sn_def]
  show ?thesis
  proof (cases "outside (cfg g) nh \<or> nh \<in> set rest")
    case True
    with stp assms(2) show ?thesis by auto
  next
    case False
    show ?thesis
    proof (cases "nh = food g")
      case True
      with stp False obtain g2 where
        g2: "placeFood (g\<lparr>snake := grow sn, score := score g + 10\<rparr>) = Some g2"
        and r: "g' = speedUp g2"
        by (auto split: option.splits)
      from placeFood_keeps [OF g2] assms(2)
      have "moveInterval (cfg g2) \<in> set (map (\<lambda>n. n / 2 ^ 29) intervals)" by simp
      from speedUp_levels [OF this] r show ?thesis by simp
    next
      case nofood: False
      with stp False assms(2) show ?thesis by auto
    qed
  qed
qed

lemma moveLoop_levels:
  assumes "moveLoop g = Some g'"
  shows "moveInterval (cfg g) \<in> set (map (\<lambda>n. n / 2 ^ 29) intervals) \<longrightarrow>
     moveInterval (cfg g') \<in> set (map (\<lambda>n. n / 2 ^ 29) intervals)"
  using assms
proof (induction g g' rule: moveLoop.raw_induct [rotated, consumes 1])
  case (1 loop g g')
  show ?case
  proof (cases "moveInterval (cfg g) \<le> acc g")
    case False
    with 1(2) show ?thesis by auto
  next
    case True
    let ?g1 = "g\<lparr>acc := f32 (acc g - moveInterval (cfg g))\<rparr>"
    from True 1(2) obtain fl g2 where stp: "step ?g1 = Some (fl, g2)"
      and r: "if fl = Break then g' = g2 else loop g2 = Some g'"
      by (auto split: option.splits if_splits)
    show ?thesis
    proof
      assume "moveInterval (cfg g) \<in> set (map (\<lambda>n. n / 2 ^ 29) intervals)"
      with step_levels [OF stp] have lv: "moveInterval (cfg g2) \<in> set (map (\<lambda>n. n / 2 ^ 29) intervals)"
        by simp
      show "moveInterval (cfg g') \<in> set (map (\<lambda>n. n / 2 ^ 29) intervals)"
      proof (cases "fl = Break")
        case True
        with r lv show ?thesis by simp
      next
        case False
        with r have "loop g2 = Some g'" by simp
        from 1(1) [OF this] lv show ?thesis by simp
      qed
    qed
  qed
qed

lemma frame_levels:
  assumes "frame evs d g = Some g'"
    and "moveInterval (cfg g) \<in> set (map (\<lambda>n. n / 2 ^ 29) intervals)"
  shows "moveInterval (cfg g') \<in> set (map (\<lambda>n. n / 2 ^ 29) intervals)"
proof -
  from assms(1) obtain g1 g2 where g1: "pollEvents evs g = Some g1" and g2: "update g1 = Some g2"
    and g': "g' = g2\<lparr>moveClock := moveClock g2 + d\<rparr>"
    by (auto simp: frame_def split: option.splits)
  have "moveInterval (cfg g2) \<in> set (map (\<lambda>n. n / 2 ^ 29) intervals)"
  proof (cases "\<not> paused g1 \<and> \<not> gameOver g1")
    case True
    with g2 have "moveLoop (g1\<lparr>moveClock := 0, acc := f32 (acc g1 + asSeconds (moveClock g1))\<rparr>) = Some g2"
      by (simp add: update_def Let_def)
    from moveLoop_levels [OF this] assms(2) pollEvents_cfg [OF g1] show ?thesis by simp
  next
    case False
    with g2 assms(2) pollEvents_cfg [OF g1] show ?thesis by (auto simp: update_def)
  qed
  with g' show ?thesis by simp
qed

lemma reachable_levels:
  "reachable g \<Longrightarrow> moveInterval (cfg g) \<in> set (map (\<lambda>n. n / 2 ^ 29) intervals)"
proof (induction rule: reachable.induct)
  case (reachable_init r t0 g)
  then obtain g0 where "placeFood g0 = Some g" "cfg g0 = GameConfig_default"
    by (auto simp: main_init_def Let_def)
  with placeFood_keeps [of g0 g] show ?case
    by (simp add: GameConfig_default_def f32_consts intervals_def)
next
  case (reachable_frame g d evs g')
  with frame_levels [of evs d g g'] show ?case by simp
qed

lemma levels_bounds:
  "x \<in> set (map (\<lambda>n. n / 2 ^ 29) intervals) \<Longrightarrow> 20048450 / 2 ^ 29 \<le> x \<and> x \<le> 64424508 / 2 ^ 29"
  unfolding intervals_def by auto

text \<open>
  C2 as amended. A step changes the move interval in one case only: it has eaten (the
  score is ten more), the new score is a multiple of 50 and the interval is still
  above \<open>0.04f\<close>; the interval is then multiplied by \<open>0.92f\<close>, in single precision,
  and nothing clamps the product. Once the interval is \<open>0.04f\<close> or less, no run of
  frames changes it again. In every reachable session the interval lies between
  \<open>20048450 / 2^29\<close>, about 0.0373, and the initial \<open>0.12f\<close>.
\<close>

theorem C2_speed_up:
  "(step g = Some (fl, g') \<longrightarrow>
      moveInterval (cfg g') =
        (if score g' = score g + 10 \<and> score g' smod 50 = 0 \<and>
            f32 (4 / 100) < moveInterval (cfg g)
         then f32 (moveInterval (cfg g) * f32 (92 / 100)) else moveInterval (cfg g))) \<and>
   (run fs gf = Some g'' \<and> moveInterval (cfg gf) \<le> f32 (4 / 100) \<longrightarrow>
      moveInterval (cfg g'') = moveInterval (cfg gf)) \<and>
   (reachable gr \<longrightarrow>
      20048450 / 2 ^ 29 \<le> moveInterval (cfg gr) \<and> moveInterval (cfg gr) \<le> f32 (12 / 100))"
proof -
  have "reachable gr \<longrightarrow>
      20048450 / 2 ^ 29 \<le> moveInterval (cfg gr) \<and> moveInterval (cfg gr) \<le> f32 (12 / 100)"
    using levels_bounds [OF reachable_levels [of gr]] unfolding f32_012 by simp
  with step_interval [of g fl g'] run_floor [of fs gf g''] show ?thesis
    by blast
qed

lemma step_meals4: "step meals4 = Some (Next, meals5)"
  by (simp add: meals4_def meals5_def game_eval placeFood_draws_Nil speedUp_def
      signed_modulo_int_def f32_consts f32_times_092 [simplified])

lemma run_meals5:
  "run [([], 120000), ([], 120000), ([], 120000), ([], 120000), ([], 120000), ([], 120000)]
     (session0 [18, 12, 19, 12, 20, 12, 21, 12] (17, 12)) = Some (meals5\<lparr>moveClock := 120000\<rparr>)"
  by (simp add: frame_def update_def asSeconds_def moveLoop.simps meals5_def game_eval
      placeFood_draws placeFood_draws_Nil speedUp_def signed_modulo_int_def f32_eval)


theorem C2_speed_up_witness:
  "step meals4 = Some (Next, meals5) \<and>
   score meals5 = score meals4 + 10 \<and> score meals5 smod 50 = 0 \<and>
   f32 (4 / 100) < moveInterval (cfg meals4) \<and>
   moveInterval (cfg meals5) = f32 (moveInterval (cfg meals4) * f32 (92 / 100)) \<and>
   moveInterval (cfg meals5) = 14817637 / 2 ^ 27 \<and>
   moveInterval (cfg fast14) \<le> f32 (4 / 100) \<and>
   (\<exists>g''. run [([], 50000), ([], 0)] fast14 = Some g'' \<and>
      head (snake g'') = Some (18, 12) \<and>
      moveInterval (cfg g'') = moveInterval (cfg fast14)) \<and>
   reachable crashed \<and>
   20048450 / 2 ^ 29 \<le> moveInterval (cfg crashed) \<and>
   moveInterval (cfg crashed) \<le> f32 (12 / 100)"
proof -
  have obs: "score meals5 = score meals4 + 10" "score meals5 smod 50 = 0"
    "f32 (4 / 100) < moveInterval (cfg meals4)" "moveInterval (cfg meals5) = 14817637 / 2 ^ 27"
    by (simp_all add: meals4_def meals5_def session0_def GameConfig_default_def
        signed_modulo_int_def f32_consts)
  have low: "moveInterval (cfg fast14) \<le> f32 (4 / 100)"
    by (simp add: fast14_def f32_consts)
  have "\<exists>g''. run [([], 50000), ([], 0)] fast14 = Some g'' \<and> head (snake g'') = Some (18, 12)"
    by (simp add: frame_def update_def asSeconds_def moveLoop.simps fast14_def fed_def
        game_eval f32_eval)
  then obtain g'' where g'': "run [([], 50000), ([], 0)] fast14 = Some g''"
    "head (snake g'') = Some (18, 12)"
    by blast
  have "moveInterval (cfg meals5) =
      (if score meals5 = score meals4 + 10 \<and> score meals5 smod 50 = 0 \<and>
          f32 (4 / 100) < moveInterval (cfg meals4)
       then f32 (moveInterval (cfg meals4) * f32 (92 / 100)) else moveInterval (cfg meals4))"
    using C2_speed_up [where g = meals4 and fl = Next and g' = meals5] step_meals4 by blast
  with obs(1-3) have up: "moveInterval (cfg meals5) = f32 (moveInterval (cfg meals4) * f32 (92 / 100))"
    by (simp only: simp_thms if_True)
  have same: "moveInterval (cfg g'') = moveInterval (cfg fast14)"
    using C2_speed_up [where gf = fast14 and fs = "[([], 50000), ([], 0)]" and g'' = g'']
      g''(1) low by blast
  have bounds: "20048450 / 2 ^ 29 \<le> moveInterval (cfg crashed) \<and>
      moveInterval (cfg crashed) \<le> f32 (12 / 100)"
    using C2_speed_up [where gr = crashed] reachable_crashed by blast
  from step_meals4 obs up low g'' same reachable_crashed bounds show ?thesis
    by blast
qed

lemma long_init: "main_init (draws (17 # 12 # long_draws)) 0 = Some (session0 long_draws (17, 12))"
  using main_init_draws [of 17 12 long_draws 0] by (simp add: Snake_new_5 session0_def)

lemma long_run_69:
  "map_option (\<lambda>g. (score g, moveInterval (cfg g)))
     (run (butlast long_frames) (session0 long_draws (17, 12))) = Some (690, 21791792 / 2 ^ 29)"
  by (simp add: long_frames_def long_draws_def frame_eval)

lemma long_run_70:
  "map_option (\<lambda>g. (score g, moveInterval (cfg g)))
     (run long_frames (session0 long_draws (17, 12))) = Some (700, 20048450 / 2 ^ 29)"
  by (simp add: long_frames_def long_draws_def frame_eval)

text \<open>
  C2 as stated fails: nothing clamps the product. In the game of seventy meals, played
  from the initial session, the score is 690 after all frames but the last and the
  interval, multiplied thirteen times, is still above \<open>0.04f\<close>; the last frame brings
  the meal that takes the score to 700, the interval is multiplied once more and ends
  at \<open>20048450 / 2^29\<close>, about 0.0373, below \<open>0.04f\<close>.
\<close>

theorem C2_counterexample:
  "main_init (draws (17 # 12 # long_draws)) 0 = Some (session0 long_draws (17, 12)) \<and>
   map_option (\<lambda>g. (score g, moveInterval (cfg g)))
     (run (butlast long_frames) (session0 long_draws (17, 12))) = Some (690, 21791792 / 2 ^ 29) \<and>
   f32 (4 / 100) < 21791792 / 2 ^ 29 \<and>
   map_option (\<lambda>g. (score g, moveInterval (cfg g)))
     (run long_frames (session0 long_draws (17, 12))) = Some (700, 20048450 / 2 ^ 29) \<and>
   20048450 / 2 ^ 29 < f32 (4 / 100)"
proof -
  have "f32 (4 / 100) < 21791792 / 2 ^ 29" "20048450 / 2 ^ 29 < f32 (4 / 100)"
    by (simp_all add: f32_consts)
  with long_init long_run_69 long_run_70 show ?thesis
    by (simp only: simp_thms)
qed

subsection \<open>Rounding is monotone\<close>

























subsection \<open>Pausing and resuming\<close>



lemma step_Break: "step g = Some (Break, g') \<Longrightarrow> gameOver g'"
  by (auto simp: step_def Let_def split: option.splits if_splits bool.splits)

text \<open>
  When the loop of the update is left, the session is game over or the accumulator holds
  less than one interval.
\<close>

lemma moveLoop_leaves:
  assumes "moveLoop g = Some g'"
  shows "gameOver g' \<or> acc g' < moveInterval (cfg g')"
  using assms
proof (induction g g' rule: moveLoop.raw_induct [rotated, consumes 1])
  case (1 loop g g')
  show ?case
  proof (cases "moveInterval (cfg g) \<le> acc g")
    case False
    with 1(2) show ?thesis by auto
  next
    case True
    let ?g1 = "g\<lparr>acc := f32 (acc g - moveInterval (cfg g))\<rparr>"
    from True 1(2) obtain fl g2 where stp: "step ?g1 = Some (fl, g2)"
      and r: "if fl = Break then g' = g2 else loop g2 = Some g'"
      by (auto split: option.splits if_splits)
    show ?thesis
    proof (cases "fl = Break")
      case True
      with stp r step_Break [of ?g1 g2] show ?thesis by simp
    next
      case False
      with r have "loop g2 = Some g'" by simp
      from 1(1) [OF this] show ?thesis .
    qed
  qed
qed



























lemma restart_crashed:
  "restart (crashed\<lparr>moveClock := t\<rparr>) = Some ((session0 [] (0, 0))\<lparr>acc := 118111600 / 2 ^ 27\<rparr>)"
  by (simp add: restart_def crashed_def session0_def placeFood_draws_Nil occupies_def Snake_new_5)

lemma frame_burst: "frame [KeyPressed R] 0 (crashed\<lparr>moveClock := 16000\<rparr>) = Some burst"
  by (simp add: frame_def keyPressed_def restart_crashed)
     (simp add: update_def asSeconds_def moveLoop.simps burst_def game_eval f32_eval)

text \<open>
  The restart after game over is another matter. From the initial session, a frame takes
  a second to draw; in the next, keys Up and Left are pressed and the only step taken runs
  the head into the body: the session is game over with 0.88 seconds left in the
  accumulator, more than seven intervals. A frame spent game over restarts the clock and
  leaves the accumulator. Then key R is pressed: the handler does not clear the accumulator
  either, and the update of that very frame, with no time on the clock, takes seven
  steps at once, from \<open>(16, 12)\<close> to \<open>(23, 12)\<close>.
\<close>

lemma burst_after_restart:
  "main_init (draws []) 0 = Some (session0 [] (0, 0)) \<and>
   run [([], 1000000), ([KeyPressed Up, KeyPressed Left], 0)] (session0 [] (0, 0)) = Some crashed \<and>
   lifecycle crashed = GameOver \<and>
   acc crashed = 118111600 / 2 ^ 27 \<and>
   7 * moveInterval (cfg crashed) < acc crashed \<and>
   frame [] 16000 crashed = Some (crashed\<lparr>moveClock := 16000\<rparr>) \<and>
   acc (crashed\<lparr>moveClock := 16000\<rparr>) = acc crashed \<and>
   frame [KeyPressed R] 0 (crashed\<lparr>moveClock := 16000\<rparr>) = Some burst \<and>
   lifecycle burst = Running \<and>
   head (Snake_new (startPos crashed) 5) = Some (16, 12) \<and>
   head (snake burst) = Some (23, 12)"
proof -
  have two: "run [([], 1000000), ([KeyPressed Up, KeyPressed Left], 0)] (session0 [] (0, 0)) = Some crashed"
    by (simp add: frame_stall frame_crash) (simp add: session0_def stalled_def)
  have over: "frame [] 16000 crashed = Some (crashed\<lparr>moveClock := 16000\<rparr>)"
  proof (rule frame_halted)
    show "pollEvents [] crashed = Some crashed" by simp
    show "lifecycle crashed \<noteq> Running" by (simp add: crashed_def lifecycle_def)
  qed
  have obs: "lifecycle crashed = GameOver" "acc crashed = 118111600 / 2 ^ 27"
    "7 * moveInterval (cfg crashed) < acc crashed"
    "acc (crashed\<lparr>moveClock := 16000\<rparr>) = acc crashed"
    "lifecycle burst = Running"
    "head (Snake_new (startPos crashed) 5) = Some (16, 12)"
    "head (snake burst) = Some (23, 12)"
    by (simp_all add: crashed_def burst_def session0_def lifecycle_def head_def Snake_new_5
        GameConfig_default_def f32_consts)
  from main_init_session0 two over frame_burst obs show ?thesis
    by simp
qed

subsection \<open>Restart\<close>

lemma restart_effect:
  assumes "restart g = Some g'"
  shows "snake g' = Snake_new (startPos g) 5 \<and> score g' = 0 \<and> lifecycle g' = Running \<and>
     \<not> occupies (snake g') (food g') \<and> moveClock g' = 0 \<and> cfg g' = cfg g \<and> acc g' = acc g"
proof -
  let ?g0 = "g\<lparr>snake := Snake_new (startPos g) 5\<rparr>"
  from assms obtain g1 where g1: "placeFood ?g0 = Some g1"
    and g': "g' = g1\<lparr>score := 0, paused := False, gameOver := False, moveClock := 0\<rparr>"
    by (auto simp: restart_def split: option.splits)
  from placeFood_frame [OF g1] obtain k where
    "g1 = ?g0\<lparr>rng := (\<lambda>n. rng ?g0 (2 * Suc k + n)), food := sample ?g0 k\<rparr>"
    "\<not> occupies (snake ?g0) (sample ?g0 k)"
    by blast
  with g' show ?thesis
    by (simp add: lifecycle_def)
qed

text \<open>
  C1 fails on the code. Five meals in a row from the initial session take the score
  to 50 and the interval from \<open>0.12f\<close> to \<open>0.12f * 0.92f\<close>. The restart then rebuilds
  the snake of five segments at \<open>(16, 12)\<close>, places the food anew, clears the score and
  the flags, and leaves the interval at the shortened value, not the configured one.
\<close>

theorem C1_restart_keeps_interval:
  "main_init (draws [17, 12, 18, 12, 19, 12, 20, 12, 21, 12]) 0 =
     Some (session0 [18, 12, 19, 12, 20, 12, 21, 12] (17, 12)) \<and>
   run [([], 120000), ([], 120000), ([], 120000), ([], 120000), ([], 120000), ([], 120000)]
     (session0 [18, 12, 19, 12, 20, 12, 21, 12] (17, 12)) = Some (meals5\<lparr>moveClock := 120000\<rparr>) \<and>
   restart (meals5\<lparr>moveClock := 120000\<rparr>) =
     Some ((session0 [] (0, 0))\<lparr>cfg := GameConfig_default\<lparr>moveInterval := 14817637 / 2 ^ 27\<rparr>\<rparr>) \<and>
   moveInterval (cfg (meals5\<lparr>moveClock := 120000\<rparr>)) = 14817637 / 2 ^ 27 \<and>
   moveInterval GameConfig_default = 16106127 / 2 ^ 27"
proof -
  have init: "main_init (draws [17, 12, 18, 12, 19, 12, 20, 12, 21, 12]) 0 =
     Some (session0 [18, 12, 19, 12, 20, 12, 21, 12] (17, 12))"
    using main_init_draws [of 17 12 "[18, 12, 19, 12, 20, 12, 21, 12]" 0]
    by (simp add: Snake_new_5 session0_def)
  have again: "restart (meals5\<lparr>moveClock := 120000\<rparr>) =
     Some ((session0 [] (0, 0))\<lparr>cfg := GameConfig_default\<lparr>moveInterval := 14817637 / 2 ^ 27\<rparr>\<rparr>)"
    by (simp add: restart_def meals5_def session0_def placeFood_draws_Nil occupies_def Snake_new_5)
  have "moveInterval (cfg (meals5\<lparr>moveClock := 120000\<rparr>)) = 14817637 / 2 ^ 27"
    "moveInterval GameConfig_default = 16106127 / 2 ^ 27"
    by (simp_all add: meals5_def GameConfig_default_def f32_consts)
  with init run_meals5 again show ?thesis
    by simp
qed

end
